theory Spec2Isabelle
  imports Complex_Main "HOL-Library.Stream"
begin

section \<open>Python values, exceptions and the constraint mapping\<close>

text \<open>
  The generator of \<^verbatim>\<open>main.py\<close> builds plain Python values: \<^verbatim>\<open>None\<close>, booleans,
  integers, floats, strings, lists, tuples and string-keyed dictionaries. A dictionary is
  kept as the list of its items in insertion order; the generator builds each of its
  dictionaries with \<open>dict_set\<close>, which keeps the keys distinct. A float is modelled by
  the rational number it denotes: the rounding of IEEE arithmetic is not modelled, and no
  result below depends on the value of a float. \<open>PObj\<close> stands for any other object (a
  date, a set, \<dots>), which an \<^verbatim>\<open>Enum\<close> member or an \<^verbatim>\<open>Interval\<close> bound may hold.
\<close>

datatype pyval =
    PNone
  | PBool bool
  | PInt int
  | PFloat rat
  | PStr string
  | PList "pyval list"
  | PTuple "pyval list"
  | PDict "(string \<times> pyval) list"
  | PObj

datatype exn = TypeError | ValueError | IndexError | StopIteration | AssertionError | AttributeError

text \<open>\<^verbatim>\<open>d[k] = v\<close>: an existing key keeps its position and takes the new value, a new key
  is appended.\<close>

fun dict_set :: "(string \<times> pyval) list \<Rightarrow> string \<Rightarrow> pyval \<Rightarrow> (string \<times> pyval) list" where
  "dict_set [] k v = [(k, v)]"
| "dict_set ((k', v') # d) k v = (if k' = k then (k, v) # d else (k', v') # dict_set d k v)"

text \<open>A dictionary comprehension \<^verbatim>\<open>{k: v for ...}\<close> stores the generated items one by one.\<close>

definition dict_of_items :: "(string \<times> pyval) list \<Rightarrow> (string \<times> pyval) list" where
  "dict_of_items items = fold (\<lambda>(k, v) d. dict_set d k v) items []"

text \<open>The constraint mapping (\<^verbatim>\<open>metadata: dict\<close>) is only ever read with \<^verbatim>\<open>.get\<close>, so it
  is a map from names to values.\<close>

type_synonym metadata = "string \<rightharpoonup> pyval"

definition dict_get :: "metadata \<Rightarrow> string \<Rightarrow> pyval \<Rightarrow> pyval" where
  "dict_get m k dflt = (case m k of None \<Rightarrow> dflt | Some v \<Rightarrow> v)"

text \<open>\<^verbatim>\<open>extracted.update(d)\<close> for the items of \<open>d\<close>, in order.\<close>

fun dict_update :: "metadata \<Rightarrow> (string \<times> pyval) list \<Rightarrow> metadata" where
  "dict_update m [] = m"
| "dict_update m ((k, v) # d) = dict_update (m(k \<mapsto> v)) d"

section \<open>The constraint extractor\<close>

text \<open>
  The raw annotation objects of a field (\<^verbatim>\<open>field_info.metadata\<close>). The extractor tells
  three kinds apart with \<^verbatim>\<open>isinstance\<close>:
  \<^item> pydantic's \<^verbatim>\<open>StringConstraints\<close>, read through its \<^verbatim>\<open>__dict__\<close>: the list of its
    attributes with their values (the class is declared by pydantic, so its attribute
    names are a parameter here);
  \<^item> annotated-types' \<^verbatim>\<open>Interval\<close> with its four attributes \<^verbatim>\<open>gt\<close>, \<^verbatim>\<open>ge\<close>, \<^verbatim>\<open>lt\<close>,
    \<^verbatim>\<open>le\<close>, each \<^verbatim>\<open>None\<close> when not set;
  \<^item> anything else (\<^verbatim>\<open>None\<close>, \<^verbatim>\<open>Strict\<close>, \<^verbatim>\<open>MultipleOf\<close>, \<^verbatim>\<open>Ge\<close>, \<dots>).
\<close>

datatype annotation =
    StringConstraints "(string \<times> pyval) list"
  | Interval pyval pyval pyval pyval
  | OtherAnnotation

text \<open>One round of the loop \<^verbatim>\<open>for item in metadata\<close>. An \<^verbatim>\<open>Interval\<close> has all four
  attributes, so \<^verbatim>\<open>hasattr\<close> holds for each and the four names are stored, \<^verbatim>\<open>None\<close>
  included.\<close>

fun extract_item :: "annotation \<Rightarrow> metadata \<Rightarrow> metadata" where
  "extract_item (StringConstraints d) extracted = dict_update extracted d"
| "extract_item (Interval gt ge lt le) extracted =
     extracted(''gt'' \<mapsto> gt, ''ge'' \<mapsto> ge, ''lt'' \<mapsto> lt, ''le'' \<mapsto> le)"
| "extract_item OtherAnnotation extracted = extracted"

text \<open>\<^verbatim>\<open>{k: v for k, v in extracted.items() if v is not None}\<close>\<close>

definition drop_none :: "metadata \<Rightarrow> metadata" where
  "drop_none extracted = (\<lambda>k. case extracted k of None \<Rightarrow> None
                                 | Some v \<Rightarrow> if v = PNone then None else Some v)"

definition extract_metadata :: "annotation list \<Rightarrow> metadata" where
  "extract_metadata metadata = drop_none (fold extract_item metadata Map.empty)"

section \<open>Type annotations\<close>

text \<open>
  What \<^verbatim>\<open>generate_value\<close> inspects of a type annotation: whether it is a class
  (\<^verbatim>\<open>isinstance(field_type, type)\<close>), which of a few classes it derives from
  (\<^verbatim>\<open>issubclass\<close>), whether it is one of a few objects (\<^verbatim>\<open>is\<close>), and, for a
  subscripted alias of \<^verbatim>\<open>typing\<close>, its origin and arguments (\<^verbatim>\<open>get_origin\<close>,
  \<^verbatim>\<open>get_args\<close>).
  \<^item> \<open>NoneType\<close> is \<^verbatim>\<open>type(None)\<close>; \<open>BoolClass\<close>, \<open>IntClass\<close>, \<open>FloatClass\<close>,
    \<open>StrClass\<close> and \<open>ListClass\<close> are the builtin classes \<^verbatim>\<open>bool\<close>, \<^verbatim>\<open>int\<close>,
    \<^verbatim>\<open>float\<close>, \<^verbatim>\<open>str\<close> and \<^verbatim>\<open>list\<close>;
  \<^item> \<open>SubclassOf b\<close> is a class declared as a proper subclass of \<^verbatim>\<open>int\<close>, \<^verbatim>\<open>float\<close> or
    \<^verbatim>\<open>str\<close> that is no \<^verbatim>\<open>Enum\<close> (\<^verbatim>\<open>bool\<close> cannot be subclassed);
  \<^item> \<open>OtherClass\<close> is any class none of the tests knows (\<^verbatim>\<open>bytes\<close>, \<^verbatim>\<open>dict\<close>, \<dots>);
  \<^item> \<open>AnyType\<close> is \<^verbatim>\<open>typing.Any\<close>;
  \<^item> \<open>EnumClass vs\<close> is a subclass of \<^verbatim>\<open>Enum\<close> whose members, in definition order,
    have the values \<open>vs\<close>;
  \<^item> \<open>ModelClass fs\<close> is a subclass of \<^verbatim>\<open>BaseModel\<close> that is no \<^verbatim>\<open>RootModel\<close>;
    \<open>fs\<close> lists \<^verbatim>\<open>model_fields\<close>: the name, \<^verbatim>\<open>annotation\<close> and \<^verbatim>\<open>metadata\<close> of each
    field in declaration order;
  \<^item> \<open>RootModelClass a\<close> is a subclass of \<^verbatim>\<open>RootModel\<close>; \<open>a\<close> is the entry \<^verbatim>\<open>'root'\<close>
    of its \<^verbatim>\<open>__annotations__\<close>, if there is one;
  \<^item> \<open>Generic origin args\<close> is a subscripted alias: \<^verbatim>\<open>Union[...]\<close> (and so
    \<^verbatim>\<open>Optional[X]\<close>), \<^verbatim>\<open>List[...]\<close>, \<^verbatim>\<open>Dict[...]\<close>, \<^verbatim>\<open>Tuple[...]\<close> of \<^verbatim>\<open>typing\<close>;
  \<^item> \<open>Opaque\<close> is any other object that is no class and has none of these four origins
    (\<^verbatim>\<open>Ellipsis\<close>, \<^verbatim>\<open>Annotated[...]\<close>, \<^verbatim>\<open>Literal[...]\<close>, a string, \<dots>).
\<close>

datatype origin = OUnion | OList | ODict | OTuple

datatype base = OfInt | OfFloat | OfStr

datatype pytype =
    NoneType
  | BoolClass
  | IntClass
  | FloatClass
  | StrClass
  | ListClass
  | SubclassOf base
  | OtherClass
  | AnyType
  | EnumClass "pyval list"
  | ModelClass "(string \<times> pytype \<times> annotation list) list"
  | RootModelClass "pytype option"
  | Generic origin "pytype list"
  | Opaque

fun get_origin :: "pytype \<Rightarrow> origin option" where
  "get_origin (Generic origin args) = Some origin"
| "get_origin _ = None"

fun get_args :: "pytype \<Rightarrow> pytype list" where
  "get_args (Generic origin args) = args"
| "get_args _ = []"

text \<open>\<^verbatim>\<open>isinstance(field_type, type)\<close>. \<^verbatim>\<open>typing.Any\<close> is a class since Python 3.11;
  before, the tests on classes are skipped for it, and it reaches the same rule.\<close>

fun is_class :: "pytype \<Rightarrow> bool" where
  "is_class (Generic origin args) = False"
| "is_class Opaque = False"
| "is_class _ = True"

fun issubclass_RootModel :: "pytype \<Rightarrow> bool" where
  "issubclass_RootModel (RootModelClass a) = True"
| "issubclass_RootModel _ = False"

text \<open>\<^verbatim>\<open>RootModel\<close> derives from \<^verbatim>\<open>BaseModel\<close>.\<close>

fun issubclass_BaseModel :: "pytype \<Rightarrow> bool" where
  "issubclass_BaseModel (ModelClass fs) = True"
| "issubclass_BaseModel (RootModelClass a) = True"
| "issubclass_BaseModel _ = False"

fun issubclass_Enum :: "pytype \<Rightarrow> bool" where
  "issubclass_Enum (EnumClass vs) = True"
| "issubclass_Enum _ = False"

fun issubclass_bool :: "pytype \<Rightarrow> bool" where
  "issubclass_bool BoolClass = True"
| "issubclass_bool _ = False"

text \<open>\<^verbatim>\<open>bool\<close> derives from \<^verbatim>\<open>int\<close>.\<close>

fun issubclass_int :: "pytype \<Rightarrow> bool" where
  "issubclass_int IntClass = True"
| "issubclass_int BoolClass = True"
| "issubclass_int (SubclassOf OfInt) = True"
| "issubclass_int _ = False"

fun issubclass_float :: "pytype \<Rightarrow> bool" where
  "issubclass_float FloatClass = True"
| "issubclass_float (SubclassOf OfFloat) = True"
| "issubclass_float _ = False"

fun issubclass_str :: "pytype \<Rightarrow> bool" where
  "issubclass_str StrClass = True"
| "issubclass_str (SubclassOf OfStr) = True"
| "issubclass_str _ = False"

text \<open>\<^verbatim>\<open>field_type.__annotations__.get('root', Any)\<close>, read for a \<^verbatim>\<open>RootModel\<close> only.\<close>

fun root_annotation :: "pytype \<Rightarrow> pytype" where
  "root_annotation (RootModelClass (Some a)) = a"
| "root_annotation _ = AnyType"

text \<open>\<^verbatim>\<open>list(field_type)\<close>, the members of an \<^verbatim>\<open>Enum\<close>, each replaced by its
  \<^verbatim>\<open>.value\<close>.\<close>

fun enum_values :: "pytype \<Rightarrow> pyval list" where
  "enum_values (EnumClass vs) = vs"
| "enum_values _ = []"

text \<open>\<^verbatim>\<open>model.model_fields.items()\<close>; an object without that attribute raises.\<close>

fun model_fields :: "pytype \<Rightarrow> (string \<times> pytype \<times> annotation list) list option" where
  "model_fields (ModelClass fs) = Some fs"
| "model_fields _ = None"

section \<open>Randomness and the fake-data provider\<close>

text \<open>
  An outcome of the randomness source is an infinite sequence of raw draws; each call of
  a random primitive takes the next draw. (\<^verbatim>\<open>random.choice\<close> and the \<^verbatim>\<open>Faker\<close> instance
  have a generator each; as the calls happen in a fixed order, one sequence for both loses
  nothing.) A generator takes the sequence and returns an exception, or its value with the
  rest of the sequence.
\<close>

type_synonym rng = "nat stream"

type_synonym 'a gen = "rng \<Rightarrow> exn + ('a \<times> rng)"

text \<open>The comprehension \<^verbatim>\<open>[f(x) for x in xs]\<close>: the calls happen from left to right, and
  the first exception ends it.\<close>

fun gen_each :: "('a \<Rightarrow> 'b gen) \<Rightarrow> 'a list \<Rightarrow> 'b list gen" where
  "gen_each f [] r = Inr ([], r)"
| "gen_each f (x # xs) r =
     (case f x r of
        Inl e \<Rightarrow> Inl e
      | Inr (y, r1) \<Rightarrow>
          (case gen_each f xs r1 of
             Inl e \<Rightarrow> Inl e
           | Inr (ys, r2) \<Rightarrow> Inr (y # ys, r2)))"

text \<open>\<^verbatim>\<open>random.choice(seq)\<close>: an element at a uniformly drawn index; an empty sequence
  raises \<^verbatim>\<open>IndexError\<close>.\<close>

definition choice :: "pyval list \<Rightarrow> pyval gen" where
  "choice seq r =
     (if seq = [] then Inl IndexError else Inr (seq ! (shd r mod length seq), stl r))"

text \<open>
  The tables and text builders of \<^verbatim>\<open>Faker\<close> are not part of the repository. They are
  parameters: which word, sentence, text or float a raw draw selects.
  \<^item> \<open>word_of n\<close>: the word \<^verbatim>\<open>fake.word()\<close> returns on draw \<open>n\<close>;
  \<^item> \<open>sentence_of k n\<close>: what \<^verbatim>\<open>fake.sentence(nb_words=k)\<close> returns;
  \<^item> \<open>text_of m n\<close>: what \<^verbatim>\<open>fake.text(max_nb_chars=m)\<close> returns or raises;
  \<^item> \<open>pyfloat_of lo hi n\<close>: what \<^verbatim>\<open>fake.pyfloat(min_value=lo, max_value=hi)\<close> returns or
    raises (\<open>None\<close> for an argument that is not given).
\<close>

record faker =
  word_of :: "nat \<Rightarrow> string"
  sentence_of :: "nat \<Rightarrow> nat \<Rightarrow> string"
  text_of :: "pyval \<Rightarrow> nat \<Rightarrow> exn + string"
  pyfloat_of :: "pyval option \<Rightarrow> pyval option \<Rightarrow> nat \<Rightarrow> exn + rat"

definition fake_word :: "faker \<Rightarrow> string gen" where
  "fake_word fk r = Inr (word_of fk (shd r), stl r)"

definition fake_sentence :: "faker \<Rightarrow> nat \<Rightarrow> pyval gen" where
  "fake_sentence fk nb_words r = Inr (PStr (sentence_of fk nb_words (shd r)), stl r)"

definition fake_text :: "faker \<Rightarrow> pyval \<Rightarrow> string gen" where
  "fake_text fk max_nb_chars r =
     (case text_of fk max_nb_chars (shd r) of
        Inl e \<Rightarrow> Inl e
      | Inr s \<Rightarrow> Inr (s, stl r))"

definition fake_pyfloat :: "faker \<Rightarrow> pyval option \<Rightarrow> pyval option \<Rightarrow> rat gen" where
  "fake_pyfloat fk min_value max_value r =
     (case pyfloat_of fk min_value max_value (shd r) of
        Inl e \<Rightarrow> Inl e
      | Inr x \<Rightarrow> Inr (x, stl r))"

text \<open>\<^verbatim>\<open>fake.boolean()\<close> is \<^verbatim>\<open>randint(1, 100) <= 50\<close>.\<close>

definition fake_boolean :: "pyval gen" where
  "fake_boolean r = Inr (PBool (1 + shd r mod 100 \<le> 50), stl r)"

text \<open>What Python takes where it wants an integer (\<^verbatim>\<open>__index__\<close>): an \<^verbatim>\<open>int\<close> or a
  \<^verbatim>\<open>bool\<close>.\<close>

fun index_of :: "pyval \<Rightarrow> int option" where
  "index_of (PInt i) = Some i"
| "index_of (PBool b) = Some (if b then 1 else 0)"
| "index_of _ = None"

text \<open>\<^verbatim>\<open>fake.random_int(min, max)\<close> is \<^verbatim>\<open>randrange(min, max + 1)\<close>: a uniformly drawn
  integer of \<open>[min, max]\<close>, \<^verbatim>\<open>ValueError\<close> when the range is empty, and \<^verbatim>\<open>TypeError\<close> for
  a bound that is no integer.\<close>

definition fake_random_int :: "pyval \<Rightarrow> pyval \<Rightarrow> pyval gen" where
  "fake_random_int min_val max_val r =
     (case (index_of min_val, index_of max_val) of
        (Some lo, Some hi) \<Rightarrow>
          if hi < lo then Inl ValueError
          else Inr (PInt (lo + int (shd r mod nat (hi - lo + 1))), stl r)
      | _ \<Rightarrow> Inl TypeError)"

text \<open>\<^verbatim>\<open>fake.pystr(min_chars, max_chars)\<close> asserts \<^verbatim>\<open>max_chars >= min_chars\<close>, draws a length
  with \<^verbatim>\<open>randint(min_chars, max_chars)\<close> and joins that many letters, each drawn from
  \<^verbatim>\<open>string.ascii_letters\<close>.\<close>

definition ascii_letters :: string where
  "ascii_letters = ''abcdefghijklmnopqrstuvwxyzABCDEFGHIJKLMNOPQRSTUVWXYZ''"

fun random_letters :: "nat \<Rightarrow> rng \<Rightarrow> string \<times> rng" where
  "random_letters 0 r = ([], r)"
| "random_letters (Suc n) r =
     (let (cs, r') = random_letters n (stl r)
      in (ascii_letters ! (shd r mod length ascii_letters) # cs, r'))"

definition fake_pystr :: "pyval \<Rightarrow> pyval \<Rightarrow> pyval gen" where
  "fake_pystr min_chars max_chars r =
     (case (index_of min_chars, index_of max_chars) of
        (Some lo, Some hi) \<Rightarrow>
          if hi < lo then Inl AssertionError
          else (let n = lo + int (shd r mod nat (hi - lo + 1));
                    (cs, r') = random_letters (nat n) (stl r)
                in Inr (PStr cs, r'))
      | _ \<Rightarrow> Inl TypeError)"

section \<open>The operators of Python that the generator applies to constraint values\<close>

text \<open>
  Constraint values are numbers where the annotations are typed as pydantic declares them.
  An operand of another kind is mapped to \<^verbatim>\<open>TypeError\<close>; no theorem below states that the
  generator raises.
\<close>

fun py_add :: "pyval \<Rightarrow> pyval \<Rightarrow> exn + pyval" where
  "py_add (PInt a) (PInt b) = Inr (PInt (a + b))"
| "py_add (PBool a) (PInt b) = Inr (PInt ((if a then 1 else 0) + b))"
| "py_add (PFloat a) (PInt b) = Inr (PFloat (a + of_int b))"
| "py_add (PInt a) (PFloat b) = Inr (PFloat (of_int a + b))"
| "py_add (PBool a) (PFloat b) = Inr (PFloat ((if a then 1 else 0) + b))"
| "py_add (PFloat a) (PFloat b) = Inr (PFloat (a + b))"
| "py_add _ _ = Inl TypeError"

fun py_sub :: "pyval \<Rightarrow> pyval \<Rightarrow> exn + pyval" where
  "py_sub (PInt a) (PInt b) = Inr (PInt (a - b))"
| "py_sub (PBool a) (PInt b) = Inr (PInt ((if a then 1 else 0) - b))"
| "py_sub (PFloat a) (PInt b) = Inr (PFloat (a - of_int b))"
| "py_sub (PInt a) (PFloat b) = Inr (PFloat (of_int a - b))"
| "py_sub (PBool a) (PFloat b) = Inr (PFloat ((if a then 1 else 0) - b))"
| "py_sub (PFloat a) (PFloat b) = Inr (PFloat (a - b))"
| "py_sub _ _ = Inl TypeError"

fun num_of :: "pyval \<Rightarrow> rat option" where
  "num_of (PInt i) = Some (of_int i)"
| "num_of (PBool b) = Some (if b then 1 else 0)"
| "num_of (PFloat x) = Some x"
| "num_of _ = None"

text \<open>\<^verbatim>\<open>a == b\<close>: numbers compare by value, everything else here by structure.\<close>

definition py_eq :: "pyval \<Rightarrow> pyval \<Rightarrow> bool" where
  "py_eq a b = (case (num_of a, num_of b) of (Some x, Some y) \<Rightarrow> x = y | _ \<Rightarrow> a = b)"

text \<open>\<^verbatim>\<open>max(a, b)\<close> keeps \<open>a\<close> unless \<open>b\<close> is greater.\<close>

definition py_max :: "pyval \<Rightarrow> pyval \<Rightarrow> exn + pyval" where
  "py_max a b =
     (case (num_of a, num_of b) of
        (Some x, Some y) \<Rightarrow> Inr (if x < y then b else a)
      | _ \<Rightarrow> Inl TypeError)"

text \<open>\<^verbatim>\<open>s[:k]\<close>: the first \<open>k\<close> characters, or all but the last \<open>-k\<close> for a negative \<open>k\<close>.\<close>

definition py_slice_to :: "string \<Rightarrow> pyval \<Rightarrow> exn + string" where
  "py_slice_to s k =
     (case index_of k of
        None \<Rightarrow> Inl TypeError
      | Some i \<Rightarrow> Inr (if 0 \<le> i then take (nat i) s else take (length s - nat (- i)) s))"

text \<open>\<^verbatim>\<open>round(x, 2)\<close>: the nearest multiple of a hundredth.\<close>

definition round2 :: "rat \<Rightarrow> rat" where
  "round2 x = of_int (round (x * 100)) / 100"

section \<open>The value synthesizer\<close>

text \<open>The three rules for classes that derive from \<^verbatim>\<open>int\<close>, \<^verbatim>\<open>float\<close> and \<^verbatim>\<open>str\<close>
  (lines 78 to 93 of \<^verbatim>\<open>main.py\<close>). Python evaluates the default of the outer \<^verbatim>\<open>.get\<close>
  first, so \<^verbatim>\<open>metadata.get("gt", 1) + 1\<close> is computed even when \<^verbatim>\<open>ge\<close> is present.\<close>

definition int_rule :: "metadata \<Rightarrow> pyval gen" where
  "int_rule metadata r =
     (case py_add (dict_get metadata ''gt'' (PInt 1)) (PInt 1) of
        Inl e \<Rightarrow> Inl e
      | Inr above_gt \<Rightarrow>
          let min_val = dict_get metadata ''ge'' above_gt in
          (case py_sub (dict_get metadata ''lt'' (PInt 1000)) (PInt 1) of
             Inl e \<Rightarrow> Inl e
           | Inr below_lt \<Rightarrow>
               let max_val = dict_get metadata ''le'' below_lt in
               fake_random_int min_val max_val r))"

definition float_rule :: "faker \<Rightarrow> metadata \<Rightarrow> pyval gen" where
  "float_rule fk metadata r =
     (case py_add (dict_get metadata ''gt'' (PFloat 1)) (PFloat (1 / 10)) of
        Inl e \<Rightarrow> Inl e
      | Inr above_gt \<Rightarrow>
          let min_val = dict_get metadata ''ge'' above_gt in
          (case py_sub (dict_get metadata ''lt'' (PFloat 1000)) (PFloat (1 / 10)) of
             Inl e \<Rightarrow> Inl e
           | Inr below_lt \<Rightarrow>
               let max_val = dict_get metadata ''le'' below_lt in
               (case fake_pyfloat fk (Some min_val) (Some max_val) r of
                  Inl e \<Rightarrow> Inl e
                | Inr (x, r1) \<Rightarrow> Inr (PFloat (round2 x), r1))))"

definition str_rule :: "faker \<Rightarrow> metadata \<Rightarrow> pyval gen" where
  "str_rule fk metadata r =
     (let min_length = dict_get metadata ''min_length'' (PInt 5);
          max_length = dict_get metadata ''max_length'' (PInt 15)
      in if py_eq min_length max_length then fake_pystr min_length min_length r
         else (case fake_text fk max_length r of
                 Inl e \<Rightarrow> Inl e
               | Inr (s, r1) \<Rightarrow>
                   (case py_max min_length max_length of
                      Inl e \<Rightarrow> Inl e
                    | Inr k \<Rightarrow>
                        (case py_slice_to s k of
                           Inl e \<Rightarrow> Inl e
                         | Inr s' \<Rightarrow> Inr (PStr s', r1)))))"

text \<open>The rules of the default fallback (lines 100 to 106).\<close>

definition bare_float_rule :: "faker \<Rightarrow> pyval gen" where
  "bare_float_rule fk r =
     (case fake_pyfloat fk None None r of
        Inl e \<Rightarrow> Inl e
      | Inr (x, r1) \<Rightarrow> Inr (PFloat (round2 x), r1))"

definition bare_list_rule :: "faker \<Rightarrow> pyval gen" where
  "bare_list_rule fk r =
     (case gen_each (\<lambda>_. fake_word fk) (replicate 3 ()) r of
        Inl e \<Rightarrow> Inl e
      | Inr (ws, r1) \<Rightarrow> Inr (PList (map PStr ws), r1))"

text \<open>The four candidates are all generated, in this order, before one is chosen.\<close>

definition any_rule :: "faker \<Rightarrow> pyval gen" where
  "any_rule fk r =
     (case fake_word fk r of
        Inl e \<Rightarrow> Inl e
      | Inr (w, r1) \<Rightarrow>
          (case fake_random_int (PInt 1) (PInt 1000) r1 of
             Inl e \<Rightarrow> Inl e
           | Inr (i, r2) \<Rightarrow>
               (case fake_pyfloat fk None None r2 of
                  Inl e \<Rightarrow> Inl e
                | Inr (x, r3) \<Rightarrow>
                    (case fake_sentence fk 4 r3 of
                       Inl e \<Rightarrow> Inl e
                     | Inr (s, r4) \<Rightarrow> choice [PStr w, i, PFloat x, s] r4))))"

text \<open>\<^verbatim>\<open>key_type, value_type = args\<close> needs exactly two arguments.\<close>

fun unpack_pair :: "pytype list \<Rightarrow> exn + (pytype \<times> pytype)" where
  "unpack_pair [k, v] = Inr (k, v)"
| "unpack_pair _ = Inl ValueError"

text \<open>Every recursive call is on a smaller annotation: an argument of an alias, the root
  annotation of a root model, the annotation of a field.\<close>

lemma size_get_args: "t \<in> set (get_args field_type) \<Longrightarrow> size t < size field_type"
proof (cases field_type)
  case (Generic origin args)
  assume "t \<in> set (get_args field_type)"
  with Generic have "t \<in> set args" by simp
  then have "size t < size (Generic origin args)" by (induction args) auto
  with Generic show ?thesis by simp
qed simp_all

lemma size_get_origin: "get_origin field_type = Some origin \<Longrightarrow> 0 < size field_type"
  by (cases field_type) simp_all

lemma size_root_annotation:
  "issubclass_RootModel model \<Longrightarrow> size (root_annotation model) < size model"
  by (cases model rule: root_annotation.cases) simp_all

lemma size_model_fields:
  "model_fields model = Some fs \<Longrightarrow> (n, t, a) \<in> set fs \<Longrightarrow> size t < size model"
proof (cases model)
  case (ModelClass fs')
  assume "model_fields model = Some fs" and mem: "(n, t, a) \<in> set fs"
  with ModelClass have "fs' = fs" by simp
  from mem have "size t < size (ModelClass fs)" by (induction fs) auto
  with ModelClass \<open>fs' = fs\<close> show ?thesis by simp
qed simp_all

lemma unpack_pair_mem: "unpack_pair args = Inr (k, v) \<Longrightarrow> v \<in> set args"
  by (cases args rule: unpack_pair.cases) auto

lemma find_mem: "find P xs = Some x \<Longrightarrow> x \<in> set xs"
  by (induction xs) (auto split: if_splits)

lemma gen_each_cong [fundef_cong]:
  "xs = ys \<Longrightarrow> r = r' \<Longrightarrow> (\<And>x s. x \<in> set ys \<Longrightarrow> f x s = g x s)
   \<Longrightarrow> gen_each f xs r = gen_each g ys r'"
proof (induction ys arbitrary: xs r r')
  case Nil
  then show ?case by simp
next
  case (Cons y ys)
  have step: "gen_each f ys s = gen_each g ys s" for s
    by (rule Cons.IH) (simp_all add: Cons.prems(3))
  from Cons.prems show ?case
    by (simp add: step split: sum.splits prod.splits)
qed

text \<open>
  \<^verbatim>\<open>generate_value\<close> and \<^verbatim>\<open>generate_dummy_instance\<close>, which call each other. The tests
  are those of the source, in its order; the first that holds decides.
\<close>

function generate_value :: "faker \<Rightarrow> pytype \<Rightarrow> metadata \<Rightarrow> pyval gen"
  and generate_dummy_instance :: "faker \<Rightarrow> pytype \<Rightarrow> pyval gen"
where
  "generate_value fk field_type metadata r =
     (let origin = get_origin field_type; args = get_args field_type in
      \<comment> \<open>Handle Optional[X] (Union[X, None])\<close>
      if origin = Some OUnion \<and> NoneType \<in> set args then
        (case find (\<lambda>t. t \<noteq> NoneType) args of
           None \<Rightarrow> Inl StopIteration
         | Some non_none_type \<Rightarrow>
             (case generate_value fk non_none_type metadata r of
                Inl e \<Rightarrow> Inl e
              | Inr (v, r1) \<Rightarrow> choice [PNone, v] r1))
      \<comment> \<open>Handle Root Models\<close>
      else if is_class field_type \<and> issubclass_RootModel field_type then
        generate_value fk (root_annotation field_type) metadata r
      \<comment> \<open>Handle nested Pydantic models\<close>
      else if is_class field_type \<and> issubclass_BaseModel field_type then
        generate_dummy_instance fk field_type r
      \<comment> \<open>Handle Enums\<close>
      else if is_class field_type \<and> issubclass_Enum field_type then
        choice (enum_values field_type) r
      \<comment> \<open>Handle Lists\<close>
      else if origin = Some OList then
        (let sub_type = (if args \<noteq> [] then hd args else AnyType) in
         case gen_each (\<lambda>t. generate_value fk t metadata) (replicate 3 sub_type) r of
           Inl e \<Rightarrow> Inl e
         | Inr (vs, r1) \<Rightarrow> Inr (PList vs, r1))
      \<comment> \<open>Handle Dicts\<close>
      else if origin = Some ODict then
        (case (if args \<noteq> [] then unpack_pair args else Inr (StrClass, AnyType)) of
           Inl e \<Rightarrow> Inl e
         | Inr (key_type, value_type) \<Rightarrow>
             (case gen_each
                     (\<lambda>t s. case fake_word fk s of
                              Inl e \<Rightarrow> Inl e
                            | Inr (k, s1) \<Rightarrow>
                                (case generate_value fk t metadata s1 of
                                   Inl e \<Rightarrow> Inl e
                                 | Inr (v, s2) \<Rightarrow> Inr ((k, v), s2)))
                     (replicate 2 value_type) r of
                Inl e \<Rightarrow> Inl e
              | Inr (items, r1) \<Rightarrow> Inr (PDict (dict_of_items items), r1)))
      \<comment> \<open>Handle Tuples\<close>
      else if origin = Some OTuple then
        (case gen_each (\<lambda>t. generate_value fk t metadata) args r of
           Inl e \<Rightarrow> Inl e
         | Inr (vs, r1) \<Rightarrow> Inr (PTuple vs, r1))
      \<comment> \<open>Handle primitive types with explicit check for bool first\<close>
      else if field_type = BoolClass \<or> (is_class field_type \<and> issubclass_bool field_type) then
        fake_boolean r
      \<comment> \<open>Handle constrained types\<close>
      else if is_class field_type \<and> issubclass_int field_type then int_rule metadata r
      else if is_class field_type \<and> issubclass_float field_type then float_rule fk metadata r
      else if is_class field_type \<and> issubclass_str field_type then str_rule fk metadata r
      \<comment> \<open>Default fallback\<close>
      else if field_type = StrClass then fake_sentence fk 4 r
      else if field_type = IntClass then fake_random_int (PInt 1) (PInt 1000) r
      else if field_type = FloatClass then bare_float_rule fk r
      else if field_type = ListClass then bare_list_rule fk r
      \<comment> \<open>Handle Any type\<close>
      else if field_type = AnyType then any_rule fk r
      else Inr (PNone, r))"
| "generate_dummy_instance fk model r =
     (if \<not> is_class model then Inl TypeError
      \<comment> \<open>Handle Root Models in Pydantic v2\<close>
      else if issubclass_RootModel model then
        generate_value fk (root_annotation model) Map.empty r
      else
        (case model_fields model of
           None \<Rightarrow> Inl AttributeError
         | Some field_infos \<Rightarrow>
             (case gen_each
                     (\<lambda>(field_name, annotation, field_metadata) s.
                        case generate_value fk annotation (extract_metadata field_metadata) s of
                          Inl e \<Rightarrow> Inl e
                        | Inr (v, s1) \<Rightarrow> Inr ((field_name, v), s1))
                     field_infos r of
                Inl e \<Rightarrow> Inl e
              | Inr (items, r1) \<Rightarrow> Inr (PDict (dict_of_items items), r1))))"
  by pat_completeness auto

termination
proof (relation "measure (\<lambda>x. case x of Inl (fk, t, md, r) \<Rightarrow> 2 * size t + 1
                                        | Inr (fk, m, r) \<Rightarrow> 2 * size m)", goal_cases)
  case 1
  show ?case by simp
next
  case (2 fk field_type metadata r origin args non_none_type)
  then show ?case by (auto dest!: find_mem size_get_args)
next
  case (3 fk field_type metadata r origin args)
  then show ?case by (auto dest: size_root_annotation)
next
  case (4 fk field_type metadata r origin args)
  then show ?case by simp
next
  case (5 fk field_type metadata r origin args sub_type t s)
  then show ?case
    by (cases "get_args field_type") (auto dest: size_get_origin [OF sym] intro: size_get_args)
next
  case (6 fk field_type metadata r origin args kv key_type value_type t s)
  then show ?case
    by (auto split: if_splits dest!: unpack_pair_mem size_get_args dest: size_get_origin [OF sym])
next
  case (7 fk field_type metadata r origin args t s)
  then show ?case by (auto dest: size_get_args)
next
  case (8 fk model r)
  then have "size (root_annotation model) < size model" by (auto dest: size_root_annotation) 
  then show ?case by simp
next
  case (9 fk model r field_infos x s field_name y annotation field_metadata)
  then have "size annotation < size model" by (auto dest: size_model_fields)
  then show ?case by simp
qed

declare generate_value.simps [simp del] generate_dummy_instance.simps [simp del]

section \<open>Serialization\<close>






section \<open>Definitions used to state the properties\<close>

subsection \<open>Constraint extraction\<close>

text \<open>The names the extractor recognises in an annotation: the attribute names of a
  \<^verbatim>\<open>StringConstraints\<close> object, the four bound names of an \<^verbatim>\<open>Interval\<close>, none of an
  object of another kind.\<close>

fun recognized_names :: "annotation \<Rightarrow> string set" where
  "recognized_names (StringConstraints d) = fst ` set d"
| "recognized_names (Interval gt ge lt le) = {''gt'', ''ge'', ''lt'', ''le''}"
| "recognized_names OtherAnnotation = {}"

fun is_unknown :: "annotation \<Rightarrow> bool" where
  "is_unknown OtherAnnotation = True"
| "is_unknown _ = False"

text \<open>An annotation sets no constraint when every attribute it carries is \<^verbatim>\<open>None\<close>.\<close>

fun no_constraint :: "annotation \<Rightarrow> bool" where
  "no_constraint (StringConstraints d) = list_all (\<lambda>(k, v). v = PNone) d"
| "no_constraint (Interval gt ge lt le) = (gt = PNone \<and> ge = PNone \<and> lt = PNone \<and> le = PNone)"
| "no_constraint OtherAnnotation = True"

definition all_none :: "metadata \<Rightarrow> bool" where
  "all_none m \<longleftrightarrow> (\<forall>k v. m k = Some v \<longrightarrow> v = PNone)"

text \<open>The metadata pydantic keeps for \<^verbatim>\<open>conint(ge=100, le=999)\<close> (the field \<^verbatim>\<open>id\<close> of the
  tests), and a list of annotations that set nothing.\<close>

definition conint_100_999 :: "annotation list" where
  "conint_100_999 = [OtherAnnotation, Interval PNone (PInt 100) PNone (PInt 999), OtherAnnotation]"

definition unset_annotations :: "annotation list" where
  "unset_annotations = [OtherAnnotation, Interval PNone PNone PNone PNone,
                         StringConstraints [(''strip_whitespace'', PNone), (''min_length'', PNone)]]"

subsection \<open>A provider for the concrete runs\<close>

text \<open>A stand-in for \<^verbatim>\<open>Faker\<close> with a word table of two words. As \<^verbatim>\<open>Faker\<close> does, \<open>text_of\<close>
  raises below five characters, and \<open>pyfloat_of\<close> returns a float between its bounds and
  raises when the lower one is not below the upper one.\<close>

definition demo_faker :: faker where
  "demo_faker =
     \<lparr> word_of = (\<lambda>n. if even n then ''lorem'' else ''ipsum''),
       sentence_of = (\<lambda>k n. ''Lorem ipsum dolor sit.''),
       text_of = (\<lambda>m n. case index_of m of
                            None \<Rightarrow> Inl TypeError
                          | Some i \<Rightarrow> if i < 5 then Inl ValueError
                                      else Inr (take (nat i) ''Lorem ipsum dolor sit amet.'')),
       pyfloat_of = (\<lambda>lo hi n. case (lo, hi) of
                               (Some a, Some b) \<Rightarrow>
                                 (case (num_of a, num_of b) of
                                    (Some x, Some y) \<Rightarrow>
                                      if x < y then Inr (x + (y - x) * of_nat (n mod 101) / 100)
                                      else Inl ValueError
                                  | _ \<Rightarrow> Inl TypeError)
                             | _ \<Rightarrow> Inr (of_nat n / 7)) \<rparr>"

subsection \<open>Integer, text and boolean fields\<close>

text \<open>An integer-typed field has the class \<^verbatim>\<open>int\<close> or a subclass of it other than
  \<^verbatim>\<open>bool\<close>; a text-typed field has the class \<^verbatim>\<open>str\<close> or a subclass of it; a boolean-typed
  field satisfies the test of line 73.\<close>

definition integer_typed :: "pytype \<Rightarrow> bool" where
  "integer_typed t \<longleftrightarrow> is_class t \<and> issubclass_int t \<and> \<not> issubclass_bool t"

definition text_typed :: "pytype \<Rightarrow> bool" where
  "text_typed t \<longleftrightarrow> is_class t \<and> issubclass_str t"

definition boolean_typed :: "pytype \<Rightarrow> bool" where
  "boolean_typed t \<longleftrightarrow> t = BoolClass \<or> (is_class t \<and> issubclass_bool t)"

text \<open>The numeric bounds of a constraint mapping are integers, as \<^verbatim>\<open>conint\<close> declares
  them.\<close>

fun int_or_absent :: "pyval option \<Rightarrow> bool" where
  "int_or_absent None = True"
| "int_or_absent (Some (PInt i)) = True"
| "int_or_absent (Some v) = False"

definition integer_bounds :: "metadata \<Rightarrow> bool" where
  "integer_bounds m \<longleftrightarrow>
     int_or_absent (m ''gt'') \<and> int_or_absent (m ''ge'') \<and>
     int_or_absent (m ''lt'') \<and> int_or_absent (m ''le'')"

text \<open>The bounds as the specification words them: \<open>lo\<close> is \<^verbatim>\<open>ge\<close>, or else \<^verbatim>\<open>gt + 1\<close>, or
  else 2; \<open>hi\<close> is \<^verbatim>\<open>le\<close>, or else \<^verbatim>\<open>lt - 1\<close>, or else 999.\<close>

definition spec_lo :: "metadata \<Rightarrow> int" where
  "spec_lo m =
     (case m ''ge'' of
        Some (PInt ge) \<Rightarrow> ge
      | _ \<Rightarrow> (case m ''gt'' of Some (PInt gt) \<Rightarrow> gt + 1 | _ \<Rightarrow> 2))"

definition spec_hi :: "metadata \<Rightarrow> int" where
  "spec_hi m =
     (case m ''le'' of
        Some (PInt le) \<Rightarrow> le
      | _ \<Rightarrow> (case m ''lt'' of Some (PInt lt) \<Rightarrow> lt - 1 | _ \<Rightarrow> 999))"

subsection \<open>Shapes that no rule matches\<close>

text \<open>The tests of \<^verbatim>\<open>generate_value\<close>, from the first to the last; when none holds, the
  function reaches its final \<^verbatim>\<open>return None\<close>.\<close>

definition matches_some_rule :: "pytype \<Rightarrow> bool" where
  "matches_some_rule t \<longleftrightarrow>
     (get_origin t = Some OUnion \<and> NoneType \<in> set (get_args t))
   \<or> (is_class t \<and> issubclass_RootModel t)
   \<or> (is_class t \<and> issubclass_BaseModel t)
   \<or> (is_class t \<and> issubclass_Enum t)
   \<or> get_origin t = Some OList
   \<or> get_origin t = Some ODict
   \<or> get_origin t = Some OTuple
   \<or> (t = BoolClass \<or> (is_class t \<and> issubclass_bool t))
   \<or> (is_class t \<and> issubclass_int t)
   \<or> (is_class t \<and> issubclass_float t)
   \<or> (is_class t \<and> issubclass_str t)
   \<or> t = StrClass \<or> t = IntClass \<or> t = FloatClass \<or> t = ListClass \<or> t = AnyType"

subsection \<open>Constraint mappings and annotations of the tests\<close>

text \<open>\<^verbatim>\<open>conint(gt=1000, lt=9999)\<close> and \<^verbatim>\<open>constr(min_length=10, max_length=10)\<close> after
  extraction, and the annotation \<^verbatim>\<open>Union[int, str]\<close>.\<close>

definition zip_code_constraints :: metadata where
  "zip_code_constraints = [''gt'' \<mapsto> PInt 1000, ''lt'' \<mapsto> PInt 9999]"

definition exact_length_constraints :: metadata where
  "exact_length_constraints = [''min_length'' \<mapsto> PInt 10, ''max_length'' \<mapsto> PInt 10]"

definition union_int_str :: pytype where
  "union_int_str = Generic OUnion [IntClass, StrClass]"

subsection \<open>Container shapes of the tests\<close>

text \<open>\<^verbatim>\<open>Dict[str, int]\<close>, \<^verbatim>\<open>List[int]\<close> and the constraints of \<^verbatim>\<open>conint(ge=100, le=999)\<close>
  after extraction.\<close>

definition dict_str_int :: pytype where
  "dict_str_int = Generic ODict [StrClass, IntClass]"

definition list_int :: pytype where
  "list_int = Generic OList [IntClass]"

definition id_constraints :: metadata where
  "id_constraints = [''ge'' \<mapsto> PInt 100, ''le'' \<mapsto> PInt 999]"

text \<open>The model \<^verbatim>\<open>Address\<close> of the tests: \<^verbatim>\<open>city: str\<close> and
  \<^verbatim>\<open>zip_code: conint(gt=1000, lt=9999)\<close>.\<close>

definition address_model :: pytype where
  "address_model =
     ModelClass [(''city'', StrClass, []),
                 (''zip_code'', IntClass,
                    [OtherAnnotation, Interval (PInt 1000) PNone (PInt 9999) PNone,
                     OtherAnnotation])]"

subsection \<open>Generators read a prefix of the outcome\<close>

text \<open>A generator reads a prefix when each of its results is reached after a number \<open>k\<close> of
  draws, leaves the sequence without its first \<open>k\<close> draws, and is the same on every
  sequence that starts with these \<open>k\<close> draws.\<close>

definition reads_prefix :: "'a gen \<Rightarrow> bool" where
  "reads_prefix g \<longleftrightarrow>
     (\<forall>r v r'. g r = Inr (v, r') \<longrightarrow>
        (\<exists>k. r' = sdrop k r \<and> (\<forall>s. stake k s = stake k r \<longrightarrow> g s = Inr (v, sdrop k s))))"

text \<open>\<^verbatim>\<open>Optional[int]\<close>, and the constraints \<^verbatim>\<open>ge=10, le=5\<close>, which no integer meets.\<close>

definition optional_int :: pytype where
  "optional_int = Generic OUnion [IntClass, NoneType]"

definition empty_range_constraints :: metadata where
  "empty_range_constraints = [''ge'' \<mapsto> PInt 10, ''le'' \<mapsto> PInt 5]"

subsection \<open>Round trip through JSON\<close>










section \<open>The constraint extractor returns recognised, non-null constraints\<close>

lemma dict_update_dom: "dom (dict_update m d) \<subseteq> dom m \<union> fst ` set d"
proof (induction m d rule: dict_update.induct)
  case (1 m)
  show ?case by simp
next
  case (2 m k v d)
  have "dom (dict_update (m(k \<mapsto> v)) d) \<subseteq> dom (m(k \<mapsto> v)) \<union> fst ` set d"
    by (rule "2.IH")
  also have "\<dots> = dom m \<union> fst ` set ((k, v) # d)"
    by simp
  finally show ?case by simp
qed

lemma extract_item_dom: "dom (extract_item a m) \<subseteq> dom m \<union> recognized_names a"
proof (cases a)
  case (StringConstraints d)
  then show ?thesis by (simp add: dict_update_dom)
next
  case (Interval gt ge lt le)
  then show ?thesis by (simp add: subset_insertI2)
next
  case OtherAnnotation
  then show ?thesis by simp
qed

lemma fold_extract_item_dom:
  "dom (fold extract_item anns m) \<subseteq> dom m \<union> (\<Union>a\<in>set anns. recognized_names a)"
proof (induction anns arbitrary: m)
  case Nil
  show ?case by simp
next
  case (Cons a anns)
  have "dom (fold extract_item anns (extract_item a m))
        \<subseteq> dom (extract_item a m) \<union> (\<Union>a\<in>set anns. recognized_names a)"
    by (rule Cons.IH)
  also have "\<dots> \<subseteq> (dom m \<union> recognized_names a) \<union> (\<Union>a\<in>set anns. recognized_names a)"
    using extract_item_dom [of a m] by (rule Un_mono) simp
  finally show ?case by (simp add: Un_assoc)
qed

lemma drop_none_dom: "dom (drop_none m) \<subseteq> dom m"
  by (auto simp: drop_none_def split: option.splits if_splits)

lemma drop_none_ran: "PNone \<notin> ran (drop_none m)"
  by (auto simp: drop_none_def ran_def split: option.splits if_splits)

lemma extract_item_unknown: "is_unknown a \<Longrightarrow> extract_item a m = m"
  by (cases a) simp_all

lemma fold_extract_item_unknown:
  "fold extract_item (filter (\<lambda>a. \<not> is_unknown a) anns) m = fold extract_item anns m"
proof (induction anns arbitrary: m)
  case Nil
  show ?case by simp
next
  case (Cons a anns)
  show ?case
    by (cases "is_unknown a") (simp_all add: Cons.IH extract_item_unknown del: extract_item.simps)
qed

lemma all_none_upd: "all_none m \<Longrightarrow> all_none (m(k \<mapsto> PNone))"
  by (simp add: all_none_def)

lemma dict_update_all_none:
  "all_none m \<Longrightarrow> list_all (\<lambda>(k, v). v = PNone) d \<Longrightarrow> all_none (dict_update m d)"
  by (induction m d rule: dict_update.induct) (simp_all add: all_none_upd)

lemma extract_item_all_none: "all_none m \<Longrightarrow> no_constraint a \<Longrightarrow> all_none (extract_item a m)"
  by (cases a) (simp_all add: dict_update_all_none all_none_upd)

lemma fold_extract_item_all_none:
  "all_none m \<Longrightarrow> list_all no_constraint anns \<Longrightarrow> all_none (fold extract_item anns m)"
  by (induction anns arbitrary: m) (simp_all add: extract_item_all_none del: extract_item.simps)

lemma drop_none_all_none: "all_none m \<Longrightarrow> drop_none m = Map.empty"
  by (rule ext) (auto simp: drop_none_def all_none_def split: option.splits)

text \<open>
  Claim C5. For every list of raw annotation objects, the mapping that \<open>extract_metadata\<close>
  returns has only names that a recognised annotation of the list carries, it maps none of
  them to \<^verbatim>\<open>None\<close>, annotation objects of unknown kinds change nothing, and a list whose
  annotations set no constraint gives the empty mapping. \<open>extract_metadata\<close> has no
  exception among its results: no step of the source can raise.
\<close>

theorem extract_metadata_recognized_non_null:
  "dom (extract_metadata anns) \<subseteq> (\<Union>a\<in>set anns. recognized_names a)
   \<and> PNone \<notin> ran (extract_metadata anns)
   \<and> extract_metadata (filter (\<lambda>a. \<not> is_unknown a) anns) = extract_metadata anns
   \<and> (list_all no_constraint anns \<longrightarrow> extract_metadata anns = Map.empty)"
proof (intro conjI impI)
  have "dom (extract_metadata anns) \<subseteq> dom (fold extract_item anns Map.empty)"
    unfolding extract_metadata_def by (rule drop_none_dom)
  also have "\<dots> \<subseteq> dom (Map.empty :: metadata) \<union> (\<Union>a\<in>set anns. recognized_names a)"
    by (rule fold_extract_item_dom)
  finally show "dom (extract_metadata anns) \<subseteq> (\<Union>a\<in>set anns. recognized_names a)"
    by simp
next
  show "PNone \<notin> ran (extract_metadata anns)"
    unfolding extract_metadata_def by (rule drop_none_ran)
next
  show "extract_metadata (filter (\<lambda>a. \<not> is_unknown a) anns) = extract_metadata anns"
    unfolding extract_metadata_def by (simp only: fold_extract_item_unknown)
next
  assume "list_all no_constraint anns"
  moreover have "all_none Map.empty" by (simp add: all_none_def)
  ultimately have "all_none (fold extract_item anns Map.empty)"
    by (simp add: fold_extract_item_all_none)
  then show "extract_metadata anns = Map.empty"
    unfolding extract_metadata_def by (rule drop_none_all_none)
qed


theorem extract_metadata_recognized_non_null_witness:
  "list_all no_constraint unset_annotations \<and> extract_metadata unset_annotations = Map.empty
   \<and> dom (extract_metadata conint_100_999) \<subseteq> {''gt'', ''ge'', ''lt'', ''le''}"
  using extract_metadata_recognized_non_null [of unset_annotations]
        extract_metadata_recognized_non_null [of conint_100_999]
  by (simp add: unset_annotations_def conint_100_999_def)

section \<open>Integer, text and boolean fields, and the final fallback\<close>

lemma random_letters_length: "length (fst (random_letters n r)) = n"
  by (induction n arbitrary: r) (simp_all add: case_prod_unfold Let_def)

lemma fake_pystr_exact:
  "\<exists>s r'. fake_pystr (PInt (int L)) (PInt (int L)) r = Inr (PStr s, r') \<and> length s = L"
proof -
  obtain cs r' where rl: "random_letters L (stl r) = (cs, r')"
    by (cases "random_letters L (stl r)")
  have "length cs = L"
    using random_letters_length [of L "stl r"] by (simp add: rl)
  moreover have "fake_pystr (PInt (int L)) (PInt (int L)) r = Inr (PStr cs, r')"
    by (simp add: fake_pystr_def rl)
  ultimately show ?thesis by blast
qed

lemma integer_typed_cases: "integer_typed t \<longleftrightarrow> t = IntClass \<or> t = SubclassOf OfInt"
  by (cases t rule: issubclass_int.cases) (simp_all add: integer_typed_def)

lemma text_typed_cases: "text_typed t \<longleftrightarrow> t = StrClass \<or> t = SubclassOf OfStr"
  by (cases t rule: issubclass_str.cases) (simp_all add: text_typed_def)

lemma boolean_typed_cases: "boolean_typed t \<longleftrightarrow> t = BoolClass"
  by (cases t) (simp_all add: boolean_typed_def)

lemma generate_value_integer_typed:
  "integer_typed t \<Longrightarrow> generate_value fk t m r = int_rule m r"
  by (auto simp: integer_typed_cases generate_value.simps)

lemma generate_value_text_typed:
  "text_typed t \<Longrightarrow> generate_value fk t m r = str_rule fk m r"
  by (auto simp: text_typed_cases generate_value.simps)

lemma generate_value_boolean_typed:
  "boolean_typed t \<Longrightarrow> generate_value fk t m r = fake_boolean r"
  by (simp add: boolean_typed_cases generate_value.simps)

lemma int_or_absent_cases: "int_or_absent x \<Longrightarrow> x = None \<or> (\<exists>i. x = Some (PInt i))"
  by (cases x rule: int_or_absent.cases) simp_all

lemma int_rule_bounds:
  assumes "integer_bounds m"
  shows "int_rule m r = fake_random_int (PInt (spec_lo m)) (PInt (spec_hi m)) r"
proof -
  from assms have b: "int_or_absent (m ''gt'')" "int_or_absent (m ''ge'')"
    "int_or_absent (m ''lt'')" "int_or_absent (m ''le'')"
    by (simp_all add: integer_bounds_def)
  from b(1) obtain g where g: "dict_get m ''gt'' (PInt 1) = PInt g"
    and g': "(case m ''gt'' of Some (PInt gt) \<Rightarrow> gt + 1 | _ \<Rightarrow> 2) = g + 1"
    by (auto simp: dict_get_def dest!: int_or_absent_cases)
  from b(3) obtain l where l: "dict_get m ''lt'' (PInt 1000) = PInt l"
    and l': "(case m ''lt'' of Some (PInt lt) \<Rightarrow> lt - 1 | _ \<Rightarrow> 999) = l - 1"
    by (auto simp: dict_get_def dest!: int_or_absent_cases)
  have lo: "dict_get m ''ge'' (PInt (g + 1)) = PInt (spec_lo m)"
    using b(2) g' by (auto simp: dict_get_def spec_lo_def dest!: int_or_absent_cases)
  have hi: "dict_get m ''le'' (PInt (l - 1)) = PInt (spec_hi m)"
    using b(4) l' by (auto simp: dict_get_def spec_hi_def dest!: int_or_absent_cases)
  show ?thesis
    by (simp add: int_rule_def g l lo hi)
qed

lemma fake_random_int_range:
  assumes "lo \<le> hi"
  shows "\<exists>x. fake_random_int (PInt lo) (PInt hi) r = Inr (PInt x, stl r) \<and> lo \<le> x \<and> x \<le> hi"
proof -
  let ?x = "lo + int (shd r mod nat (hi - lo + 1))"
  have pos: "0 < nat (hi - lo + 1)" using assms by simp
  have "shd r mod nat (hi - lo + 1) < nat (hi - lo + 1)"
    using pos by (rule mod_less_divisor)
  then have "int (shd r mod nat (hi - lo + 1)) < hi - lo + 1" by linarith
  then have "lo \<le> ?x \<and> ?x \<le> hi" by simp
  moreover have "fake_random_int (PInt lo) (PInt hi) r = Inr (PInt ?x, stl r)"
    using assms by (simp add: fake_random_int_def)
  ultimately show ?thesis by blast
qed

lemma integer_typed_within_bounds:
  assumes "integer_typed t" and "integer_bounds m" and "spec_lo m \<le> spec_hi m"
  shows "\<exists>x. generate_value fk t m r = Inr (PInt x, stl r) \<and> spec_lo m \<le> x \<and> x \<le> spec_hi m"
proof -
  have "generate_value fk t m r = fake_random_int (PInt (spec_lo m)) (PInt (spec_hi m)) r"
    using assms(1,2) by (simp add: generate_value_integer_typed int_rule_bounds)
  with fake_random_int_range [OF assms(3), of r] show ?thesis by simp
qed

text \<open>
  Claim C1. For an integer-typed field whose constraint mapping \<open>m\<close> has integer bounds, with
  \<open>lo\<close> and \<open>hi\<close> derived from \<open>m\<close> as the specification says and \<open>lo \<le> hi\<close>, the
  synthesizer returns, for every outcome of the randomness source, an integer \<open>x\<close> with
  \<open>lo \<le> x \<le> hi\<close>.
\<close>

theorem integer_field_within_bounds:
  assumes "integer_typed t" and "integer_bounds m" and "spec_lo m \<le> spec_hi m"
  shows "\<exists>x r'. generate_value fk t m r = Inr (PInt x, r') \<and> spec_lo m \<le> x \<and> x \<le> spec_hi m"
  using integer_typed_within_bounds [OF assms, of fk r] by blast

theorem integer_field_within_bounds_witness:
  "integer_typed IntClass \<and> integer_bounds zip_code_constraints
   \<and> spec_lo zip_code_constraints \<le> spec_hi zip_code_constraints
   \<and> (\<exists>x r'. generate_value demo_faker IntClass zip_code_constraints (sconst 0) = Inr (PInt x, r')
              \<and> 1001 \<le> x \<and> x \<le> 9998)"
  using integer_field_within_bounds [of IntClass zip_code_constraints demo_faker "sconst 0"]
  by (simp add: integer_typed_def integer_bounds_def spec_lo_def spec_hi_def
        zip_code_constraints_def)

text \<open>
  Claim C4. For a text-typed field whose constraint mapping has \<^verbatim>\<open>min_length\<close> and
  \<^verbatim>\<open>max_length\<close> both equal to a length \<open>L\<close>, the synthesizer returns, for every outcome of
  the randomness source, a string of exactly \<open>L\<close> characters.
\<close>

theorem text_field_exact_length:
  assumes "text_typed t"
    and "m ''min_length'' = Some (PInt (int L))" and "m ''max_length'' = Some (PInt (int L))"
  shows "\<exists>s r'. generate_value fk t m r = Inr (PStr s, r') \<and> length s = L"
proof -
  have "str_rule fk m r = fake_pystr (PInt (int L)) (PInt (int L)) r"
    using assms(2,3) by (simp add: str_rule_def dict_get_def py_eq_def Let_def)
  then have "generate_value fk t m r = fake_pystr (PInt (int L)) (PInt (int L)) r"
    using assms(1) by (simp add: generate_value_text_typed)
  with fake_pystr_exact [of L r] show ?thesis by simp
qed

theorem text_field_exact_length_witness:
  "text_typed StrClass
   \<and> exact_length_constraints ''min_length'' = Some (PInt 10)
   \<and> exact_length_constraints ''max_length'' = Some (PInt 10)
   \<and> (\<exists>s r'. generate_value demo_faker StrClass exact_length_constraints (sconst 0)
                = Inr (PStr s, r') \<and> length s = 10)"
  using text_field_exact_length [of StrClass exact_length_constraints 10 demo_faker "sconst 0"]
  by (simp add: text_typed_def exact_length_constraints_def)

lemma int_rule_result: "int_rule m r = Inr (v, r') \<Longrightarrow> \<exists>i. v = PInt i"
  by (auto simp: int_rule_def fake_random_int_def Let_def split: sum.splits option.splits if_splits)

text \<open>
  Claim C8. A boolean-typed field is a subclass of \<^verbatim>\<open>int\<close>, yet for every constraint
  mapping and every outcome of the randomness source the synthesizer returns a boolean,
  the one \<^verbatim>\<open>fake.boolean()\<close> gives, and never what the integer rule gives.
\<close>

theorem boolean_before_integer:
  assumes "boolean_typed t"
  shows "(\<exists>b r'. generate_value fk t m r = Inr (PBool b, r'))
         \<and> generate_value fk t m r = fake_boolean r
         \<and> generate_value fk t m r \<noteq> int_rule m r
         \<and> issubclass_int t"
proof -
  have gv: "generate_value fk t m r = fake_boolean r"
    using assms by (rule generate_value_boolean_typed)
  have b: "fake_boolean r = Inr (PBool (1 + shd r mod 100 \<le> 50), stl r)"
    by (simp add: fake_boolean_def)
  have "fake_boolean r \<noteq> int_rule m r"
    using int_rule_result [of m r "PBool (1 + shd r mod 100 \<le> 50)" "stl r"] b by auto
  moreover have "issubclass_int t"
    using assms by (simp add: boolean_typed_cases)
  ultimately show ?thesis using gv b by simp
qed

theorem boolean_before_integer_witness:
  "boolean_typed BoolClass
   \<and> generate_value demo_faker BoolClass zip_code_constraints (sconst 0) = Inr (PBool True, sconst 0)"
  using boolean_before_integer [of BoolClass demo_faker zip_code_constraints "sconst 0"]
  by (simp add: boolean_typed_def fake_boolean_def)

text \<open>
  Claim C9. For a type annotation that none of the tests of \<open>generate_value\<close> matches, the
  synthesizer returns \<^verbatim>\<open>None\<close>, consumes no randomness and does not raise; a \<^verbatim>\<open>Union\<close>
  without \<^verbatim>\<open>NoneType\<close> among its arguments is such an annotation. The annotations that
  no test matches are \<^verbatim>\<open>NoneType\<close>, the classes and objects the tests do not know, and
  these unions.
\<close>

lemma unmatched_shapes:
  "\<not> matches_some_rule t \<longleftrightarrow>
     t = NoneType \<or> t = OtherClass \<or> t = Opaque
     \<or> (\<exists>args. t = Generic OUnion args \<and> NoneType \<notin> set args)"
proof (cases t)
  case (Generic origin args)
  then show ?thesis by (cases origin) (simp_all add: matches_some_rule_def)
next
  case (SubclassOf b)
  then show ?thesis by (cases b) (simp_all add: matches_some_rule_def)
qed (simp_all add: matches_some_rule_def)

theorem unmatched_shape_yields_none:
  "(\<not> matches_some_rule t \<longrightarrow> generate_value fk t m r = Inr (PNone, r))
   \<and> (NoneType \<notin> set args \<longrightarrow> \<not> matches_some_rule (Generic OUnion args))
   \<and> (\<not> matches_some_rule t \<longleftrightarrow>
          t = NoneType \<or> t = OtherClass \<or> t = Opaque
          \<or> (\<exists>args. t = Generic OUnion args \<and> NoneType \<notin> set args))"
proof (intro conjI)
  show "\<not> matches_some_rule t \<longrightarrow> generate_value fk t m r = Inr (PNone, r)"
    by (simp add: matches_some_rule_def generate_value.simps [of fk t m r] Let_def)
  show "NoneType \<notin> set args \<longrightarrow> \<not> matches_some_rule (Generic OUnion args)"
    by (simp add: matches_some_rule_def)
  show "\<not> matches_some_rule t \<longleftrightarrow>
          t = NoneType \<or> t = OtherClass \<or> t = Opaque
          \<or> (\<exists>args. t = Generic OUnion args \<and> NoneType \<notin> set args)"
    by (rule unmatched_shapes)
qed

theorem unmatched_shape_yields_none_witness:
  "NoneType \<notin> set [IntClass, StrClass] \<and> \<not> matches_some_rule union_int_str
   \<and> generate_value demo_faker union_int_str Map.empty (sconst 0) = Inr (PNone, sconst 0)"
  using unmatched_shape_yields_none
          [of union_int_str demo_faker Map.empty "sconst 0" "[IntClass, StrClass]"]
  by (simp add: union_int_str_def)

section \<open>Records, mappings and the constraints of container fields\<close>

lemma replicate_3: "replicate 3 x = [x, x, x]"
  by (simp add: numeral_3_eq_3)

lemma replicate_2: "replicate 2 x = [x, x]"
  by (simp add: numeral_2_eq_2)

lemma generate_value_list:
  "generate_value fk (Generic OList args) m r =
     (case gen_each (\<lambda>t. generate_value fk t m)
             (replicate 3 (if args \<noteq> [] then hd args else AnyType)) r of
        Inl e \<Rightarrow> Inl e
      | Inr (vs, r1) \<Rightarrow> Inr (PList vs, r1))"
  by (simp add: generate_value.simps [of fk "Generic OList args" m r])

lemma generate_value_tuple:
  "generate_value fk (Generic OTuple args) m r =
     (case gen_each (\<lambda>t. generate_value fk t m) args r of
        Inl e \<Rightarrow> Inl e
      | Inr (vs, r1) \<Rightarrow> Inr (PTuple vs, r1))"
  by (simp add: generate_value.simps [of fk "Generic OTuple args" m r])

lemma generate_value_dict:
  "generate_value fk (Generic ODict args) m r =
     (case (if args \<noteq> [] then unpack_pair args else Inr (StrClass, AnyType)) of
        Inl e \<Rightarrow> Inl e
      | Inr (key_type, value_type) \<Rightarrow>
          (case gen_each
                  (\<lambda>t s. case fake_word fk s of
                           Inl e \<Rightarrow> Inl e
                         | Inr (k, s1) \<Rightarrow>
                             (case generate_value fk t m s1 of
                                Inl e \<Rightarrow> Inl e
                              | Inr (v, s2) \<Rightarrow> Inr ((k, v), s2)))
                  (replicate 2 value_type) r of
             Inl e \<Rightarrow> Inl e
           | Inr (items, r1) \<Rightarrow> Inr (PDict (dict_of_items items), r1)))"
  by (simp add: generate_value.simps [of fk "Generic ODict args" m r])

lemma generate_value_optional:
  "NoneType \<in> set args \<Longrightarrow>
   generate_value fk (Generic OUnion args) m r =
     (case find (\<lambda>t. t \<noteq> NoneType) args of
        None \<Rightarrow> Inl StopIteration
      | Some non_none_type \<Rightarrow>
          (case generate_value fk non_none_type m r of
             Inl e \<Rightarrow> Inl e
           | Inr (v, r1) \<Rightarrow> choice [PNone, v] r1))"
  by (simp add: generate_value.simps [of fk "Generic OUnion args" m r])

lemma generate_value_model:
  "generate_value fk (ModelClass fs) m r =
     (case gen_each
             (\<lambda>(field_name, annotation, field_metadata) s.
                case generate_value fk annotation (extract_metadata field_metadata) s of
                  Inl e \<Rightarrow> Inl e
                | Inr (v, s1) \<Rightarrow> Inr ((field_name, v), s1))
             fs r of
        Inl e \<Rightarrow> Inl e
      | Inr (items, r1) \<Rightarrow> Inr (PDict (dict_of_items items), r1))"
  by (simp add: generate_value.simps [of fk "ModelClass fs" m r]
                generate_dummy_instance.simps [of fk "ModelClass fs" r])

lemma generate_value_root_model:
  "generate_value fk (RootModelClass a) m r = generate_value fk (root_annotation (RootModelClass a)) m r"
  by (simp add: generate_value.simps [of fk "RootModelClass a" m r])

lemma generate_value_enum:
  "generate_value fk (EnumClass vs) m r = choice vs r"
  by (simp add: generate_value.simps [of fk "EnumClass vs" m r])


lemma dict_set_keys: "fst ` set (dict_set d k v) = insert k (fst ` set d)"
  by (induction d k v rule: dict_set.induct) auto

lemma dict_set_fresh: "k \<notin> fst ` set d \<Longrightarrow> dict_set d k v = d @ [(k, v)]"
  by (induction d k v rule: dict_set.induct) auto



lemma fold_dict_set_keys:
  "fst ` set (fold (\<lambda>(k, v) d. dict_set d k v) items d) = fst ` set d \<union> fst ` set items"
proof (induction items arbitrary: d)
  case Nil
  show ?case by simp
next
  case (Cons kv items)
  obtain k v where kv: "kv = (k, v)" by (cases kv)
  show ?case by (simp add: kv Cons.IH dict_set_keys)
qed

lemma fold_dict_set_fresh:
  "distinct (map fst (d @ items)) \<Longrightarrow> fold (\<lambda>(k, v) d. dict_set d k v) items d = d @ items"
proof (induction items arbitrary: d)
  case Nil
  show ?case by simp
next
  case (Cons kv items)
  obtain k v where kv: "kv = (k, v)" by (cases kv)
  from Cons.prems have fresh: "k \<notin> fst ` set d" by (auto simp: kv)
  from Cons.prems have "distinct (map fst ((d @ [(k, v)]) @ items))" by (simp add: kv)
  then have "fold (\<lambda>(k, v) d. dict_set d k v) items (d @ [(k, v)]) = (d @ [(k, v)]) @ items"
    by (rule Cons.IH)
  with fresh show ?case by (simp add: kv dict_set_fresh)
qed



lemma dict_of_items_keys: "fst ` set (dict_of_items items) = fst ` set items"
  by (simp add: dict_of_items_def fold_dict_set_keys)

lemma dict_of_items_distinct_keys:
  "distinct (map fst items) \<Longrightarrow> dict_of_items items = items"
  using fold_dict_set_fresh [of "[]" items] by (simp add: dict_of_items_def)



lemma gen_each_length: "gen_each f xs r = Inr (ys, r') \<Longrightarrow> length ys = length xs"
  by (induction xs arbitrary: r ys) (auto split: sum.splits prod.splits)

lemma gen_each_field_names:
  "gen_each (\<lambda>(field_name, annotation, field_metadata) s.
               case g annotation field_metadata s of
                 Inl e \<Rightarrow> Inl e
               | Inr (v, s1) \<Rightarrow> Inr ((field_name, v), s1)) fs r = Inr (items, r')
   \<Longrightarrow> map fst items = map fst fs"
  by (induction fs arbitrary: r items) (auto split: sum.splits prod.splits)

text \<open>
  Claim C6. Whenever the synthesizer returns a value for a nested model, that value is a
  record whose keys are exactly the field names the model declares, and in the declared
  order (the names of \<^verbatim>\<open>model_fields\<close> are distinct, being keys of a dictionary); a model
  without fields gives the empty record, for every outcome of the randomness source.
\<close>

theorem record_keys_are_field_names:
  "(generate_value fk (ModelClass fs) m r = Inr (v, r') \<longrightarrow>
      (\<exists>items. v = PDict items \<and> fst ` set items = fst ` set fs
          \<and> (distinct (map fst fs) \<longrightarrow> map fst items = map fst fs)))
   \<and> generate_value fk (ModelClass []) m r = Inr (PDict [], r)"
proof (intro conjI impI)
  assume gv: "generate_value fk (ModelClass fs) m r = Inr (v, r')"
  let ?f = "\<lambda>(field_name, annotation, field_metadata) s.
               case generate_value fk annotation (extract_metadata field_metadata) s of
                 Inl e \<Rightarrow> Inl e
               | Inr (v, s1) \<Rightarrow> Inr ((field_name, v), s1)"
  from gv obtain items where items: "gen_each ?f fs r = Inr (items, r')"
    and v: "v = PDict (dict_of_items items)"
    by (auto simp: generate_value_model split: sum.splits)
  have names: "map fst items = map fst fs"
    using items by (rule gen_each_field_names [where g = "\<lambda>a md. generate_value fk a (extract_metadata md)"])
  then have set_names: "fst ` set items = fst ` set fs"
    by (metis set_map)
  have "fst ` set (dict_of_items items) = fst ` set fs"
    by (simp add: dict_of_items_keys set_names)
  moreover have "map fst (dict_of_items items) = map fst fs" if "distinct (map fst fs)"
    using that names by (simp add: dict_of_items_distinct_keys)
  ultimately show "\<exists>items. v = PDict items \<and> fst ` set items = fst ` set fs
          \<and> (distinct (map fst fs) \<longrightarrow> map fst items = map fst fs)"
    using v by blast
next
  show "generate_value fk (ModelClass []) m r = Inr (PDict [], r)"
    by (simp add: generate_value_model dict_of_items_def)
qed


lemmas eval_defs =
  generate_value.simps generate_dummy_instance.simps replicate_3 replicate_2
  int_rule_def float_rule_def str_rule_def bare_float_rule_def bare_list_rule_def any_rule_def
  fake_random_int_def fake_word_def fake_boolean_def fake_pystr_def fake_text_def
  fake_sentence_def fake_pyfloat_def choice_def
  dict_get_def dict_of_items_def extract_metadata_def drop_none_def
  py_eq_def py_max_def py_slice_to_def round2_def Let_def demo_faker_def

theorem record_keys_are_field_names_witness:
  "generate_value demo_faker address_model Map.empty (sconst 0)
     = Inr (PDict [(''city'', PStr ''Lorem ipsum dol''), (''zip_code'', PInt 1001)], sconst 0)
   \<and> distinct [''city'', ''zip_code'']
   \<and> (\<exists>items. PDict [(''city'', PStr ''Lorem ipsum dol''), (''zip_code'', PInt 1001)] = PDict items
          \<and> map fst items = [''city'', ''zip_code''])"
  using record_keys_are_field_names
          [of demo_faker "[(''city'', StrClass, []),
                 (''zip_code'', IntClass,
                    [OtherAnnotation, Interval (PInt 1000) PNone (PInt 9999) PNone,
                     OtherAnnotation])]" Map.empty "sconst 0"
              "PDict [(''city'', PStr ''Lorem ipsum dol''), (''zip_code'', PInt 1001)]" "sconst 0"]
  by (simp add: address_model_def eval_defs)

text \<open>
  Claim C2 does not hold as stated. A dictionary keeps one entry per key: when
  \<^verbatim>\<open>fake.word()\<close> returns the same token twice, the comprehension of line 66 stores the
  second value under the key of the first, and the mapping has one entry.
\<close>

theorem mapping_collision_counterexample:
  "generate_value demo_faker dict_str_int Map.empty (sconst 0)
     = Inr (PDict [(''lorem'', PInt 2)], sconst 0)"
  by (simp add: dict_str_int_def eval_defs)

text \<open>
  Claim C2, amended. Whenever the synthesizer returns a value for a \<^verbatim>\<open>Dict\<close> field, it has
  drawn two tokens \<open>k1\<close>, \<open>k2\<close> with \<^verbatim>\<open>fake.word()\<close> and synthesized a value after each,
  under the constraints of the field; the result is a mapping with the two entries in
  this order when the tokens differ, and with the single entry of \<open>k1\<close> and the second
  value when they are equal.
\<close>

theorem mapping_one_or_two_entries:
  assumes "generate_value fk (Generic ODict args) m r = Inr (v, r')"
    and "args = [kt, vt] \<or> (args = [] \<and> vt = AnyType)"
  shows "\<exists>k1 v1 r1 k2 v2.
           k1 = word_of fk (shd r) \<and> generate_value fk vt m (stl r) = Inr (v1, r1)
         \<and> k2 = word_of fk (shd r1) \<and> generate_value fk vt m (stl r1) = Inr (v2, r')
         \<and> v = PDict (if k1 = k2 then [(k1, v2)] else [(k1, v1), (k2, v2)])"
proof -
  from assms(2)
  have unpack: "(if args \<noteq> [] then unpack_pair args else Inr (StrClass, AnyType)) = Inr (kt, vt)
                \<or> (\<exists>kt'. (if args \<noteq> [] then unpack_pair args else Inr (StrClass, AnyType)) = Inr (kt', vt))"
    by auto
  then obtain kt' where
    "(if args \<noteq> [] then unpack_pair args else Inr (StrClass, AnyType)) = Inr (kt', vt)"
    by blast
  with assms(1) obtain v1 r1 v2 where
      g1: "generate_value fk vt m (stl r) = Inr (v1, r1)"
    and g2: "generate_value fk vt m (stl r1) = Inr (v2, r')"
    and v: "v = PDict (dict_of_items [(word_of fk (shd r), v1), (word_of fk (shd r1), v2)])"
    by (auto simp: generate_value_dict replicate_2 fake_word_def split: sum.splits)
  have "dict_of_items [(word_of fk (shd r), v1), (word_of fk (shd r1), v2)]
        = (if word_of fk (shd r) = word_of fk (shd r1) then [(word_of fk (shd r), v2)]
           else [(word_of fk (shd r), v1), (word_of fk (shd r1), v2)])"
    by (simp add: dict_of_items_def)
  with g1 g2 v show ?thesis by blast
qed

theorem mapping_one_or_two_entries_witness:
  "generate_value demo_faker dict_str_int Map.empty (0 ## 5 ## 1 ## sconst 0)
     = Inr (PDict [(''lorem'', PInt 7), (''ipsum'', PInt 2)], sconst 0)
   \<and> (\<exists>k1 v1 k2 v2. k1 \<noteq> k2 \<and> PDict [(''lorem'', PInt 7), (''ipsum'', PInt 2)] = PDict [(k1, v1), (k2, v2)])"
  using mapping_one_or_two_entries
          [of demo_faker "[StrClass, IntClass]" Map.empty "0 ## 5 ## 1 ## sconst 0"
              "PDict [(''lorem'', PInt 7), (''ipsum'', PInt 2)]" "sconst 0" StrClass IntClass]
  by (simp add: dict_str_int_def eval_defs)


lemma list_of_integers_within_bounds:
  assumes "integer_bounds m" and "spec_lo m \<le> spec_hi m"
  shows "\<exists>x y z r'. generate_value fk (Generic OList [IntClass]) m r
                      = Inr (PList [PInt x, PInt y, PInt z], r')
                   \<and> {x, y, z} \<subseteq> {spec_lo m .. spec_hi m}"
proof -
  have it: "integer_typed IntClass" by (simp add: integer_typed_def)
  obtain x where x: "generate_value fk IntClass m r = Inr (PInt x, stl r)"
    and xb: "spec_lo m \<le> x \<and> x \<le> spec_hi m"
    using integer_typed_within_bounds [OF it assms, of fk r] by blast
  obtain y where y: "generate_value fk IntClass m (stl r) = Inr (PInt y, stl (stl r))"
    and yb: "spec_lo m \<le> y \<and> y \<le> spec_hi m"
    using integer_typed_within_bounds [OF it assms, of fk "stl r"] by blast
  obtain z where z: "generate_value fk IntClass m (stl (stl r)) = Inr (PInt z, stl (stl (stl r)))"
    and zb: "spec_lo m \<le> z \<and> z \<le> spec_hi m"
    using integer_typed_within_bounds [OF it assms, of fk "stl (stl r)"] by blast
  have "generate_value fk (Generic OList [IntClass]) m r
        = Inr (PList [PInt x, PInt y, PInt z], stl (stl (stl r)))"
    by (simp add: generate_value_list replicate_3 x y z)
  with xb yb zb show ?thesis by auto
qed

text \<open>
  Claim C10. The synthesizer of a \<^verbatim>\<open>List\<close>, \<^verbatim>\<open>Tuple\<close>, \<^verbatim>\<open>Dict\<close> or \<^verbatim>\<open>Optional\<close> field with
  constraint mapping \<open>m\<close> is the synthesizer of its elements (of the wrapped annotation)
  run with the same \<open>m\<close>: three times for a list, once per position for a tuple, after
  each of the two keys for a dictionary, once before the draw for an optional. So an
  integer bound declared on a list of integers holds for each of its three elements.
\<close>

theorem constraints_passed_to_elements:
  "generate_value fk (Generic OList [t]) m r =
     (case gen_each (\<lambda>t. generate_value fk t m) [t, t, t] r of
        Inl e \<Rightarrow> Inl e
      | Inr (vs, r1) \<Rightarrow> Inr (PList vs, r1))
   \<and> generate_value fk (Generic OTuple ts) m r =
     (case gen_each (\<lambda>t. generate_value fk t m) ts r of
        Inl e \<Rightarrow> Inl e
      | Inr (vs, r1) \<Rightarrow> Inr (PTuple vs, r1))
   \<and> generate_value fk (Generic ODict [kt, vt]) m r =
     (case gen_each
             (\<lambda>t s. case fake_word fk s of
                      Inl e \<Rightarrow> Inl e
                    | Inr (k, s1) \<Rightarrow>
                        (case generate_value fk t m s1 of
                           Inl e \<Rightarrow> Inl e
                         | Inr (v, s2) \<Rightarrow> Inr ((k, v), s2)))
             [vt, vt] r of
        Inl e \<Rightarrow> Inl e
      | Inr (items, r1) \<Rightarrow> Inr (PDict (dict_of_items items), r1))
   \<and> (NoneType \<in> set args \<and> find (\<lambda>t. t \<noteq> NoneType) args = Some t \<longrightarrow>
        generate_value fk (Generic OUnion args) m r =
          (case generate_value fk t m r of
             Inl e \<Rightarrow> Inl e
           | Inr (v, r1) \<Rightarrow> choice [PNone, v] r1))
   \<and> (integer_bounds m \<and> spec_lo m \<le> spec_hi m \<longrightarrow>
        (\<exists>x y z r'. generate_value fk (Generic OList [IntClass]) m r
                       = Inr (PList [PInt x, PInt y, PInt z], r')
                    \<and> {x, y, z} \<subseteq> {spec_lo m .. spec_hi m}))"
proof (intro conjI impI)
  show "generate_value fk (Generic OList [t]) m r =
     (case gen_each (\<lambda>t. generate_value fk t m) [t, t, t] r of
        Inl e \<Rightarrow> Inl e
      | Inr (vs, r1) \<Rightarrow> Inr (PList vs, r1))"
    by (simp add: generate_value_list replicate_3)
next
  show "generate_value fk (Generic OTuple ts) m r =
     (case gen_each (\<lambda>t. generate_value fk t m) ts r of
        Inl e \<Rightarrow> Inl e
      | Inr (vs, r1) \<Rightarrow> Inr (PTuple vs, r1))"
    by (rule generate_value_tuple)
next
  show "generate_value fk (Generic ODict [kt, vt]) m r =
     (case gen_each
             (\<lambda>t s. case fake_word fk s of
                      Inl e \<Rightarrow> Inl e
                    | Inr (k, s1) \<Rightarrow>
                        (case generate_value fk t m s1 of
                           Inl e \<Rightarrow> Inl e
                         | Inr (v, s2) \<Rightarrow> Inr ((k, v), s2)))
             [vt, vt] r of
        Inl e \<Rightarrow> Inl e
      | Inr (items, r1) \<Rightarrow> Inr (PDict (dict_of_items items), r1))"
    by (simp only: generate_value_dict replicate_2) simp
next
  assume "NoneType \<in> set args \<and> find (\<lambda>t. t \<noteq> NoneType) args = Some t"
  then show "generate_value fk (Generic OUnion args) m r =
          (case generate_value fk t m r of
             Inl e \<Rightarrow> Inl e
           | Inr (v, r1) \<Rightarrow> choice [PNone, v] r1)"
    by (simp add: generate_value_optional)
next
  assume "integer_bounds m \<and> spec_lo m \<le> spec_hi m"
  then show "\<exists>x y z r'. generate_value fk (Generic OList [IntClass]) m r
                       = Inr (PList [PInt x, PInt y, PInt z], r')
                    \<and> {x, y, z} \<subseteq> {spec_lo m .. spec_hi m}"
    using list_of_integers_within_bounds [of m fk r] by simp
qed

theorem constraints_passed_to_elements_witness:
  "integer_bounds id_constraints \<and> spec_lo id_constraints \<le> spec_hi id_constraints
   \<and> (\<exists>x y z r'. generate_value demo_faker list_int id_constraints (sconst 0)
                       = Inr (PList [PInt x, PInt y, PInt z], r')
                    \<and> {x, y, z} \<subseteq> {100 .. 999})
   \<and> NoneType \<in> set [IntClass, NoneType]
   \<and> find (\<lambda>t. t \<noteq> NoneType) [IntClass, NoneType] = Some IntClass
   \<and> generate_value demo_faker (Generic OUnion [IntClass, NoneType]) id_constraints (sconst 0)
       = (case generate_value demo_faker IntClass id_constraints (sconst 0) of
            Inl e \<Rightarrow> Inl e
          | Inr (v, r1) \<Rightarrow> choice [PNone, v] r1)"
proof -
  have lo: "spec_lo id_constraints = 100" and hi: "spec_hi id_constraints = 999"
    by (simp_all add: id_constraints_def spec_lo_def spec_hi_def)
  have b: "integer_bounds id_constraints \<and> spec_lo id_constraints \<le> spec_hi id_constraints"
    by (simp add: lo hi) (simp add: id_constraints_def integer_bounds_def)
  have args: "NoneType \<in> set [IntClass, NoneType]
              \<and> find (\<lambda>t. t \<noteq> NoneType) [IntClass, NoneType] = Some IntClass"
    by simp
  note passed = constraints_passed_to_elements
          [of demo_faker IntClass id_constraints "sconst 0" "[]" StrClass IntClass
              "[IntClass, NoneType]"]
  from passed b
  have "\<exists>x y z r'. generate_value demo_faker (Generic OList [IntClass]) id_constraints (sconst 0)
                       = Inr (PList [PInt x, PInt y, PInt z], r')
                    \<and> {x, y, z} \<subseteq> {spec_lo id_constraints .. spec_hi id_constraints}"
    by blast
  moreover from passed args
  have "generate_value demo_faker (Generic OUnion [IntClass, NoneType]) id_constraints (sconst 0)
       = (case generate_value demo_faker IntClass id_constraints (sconst 0) of
            Inl e \<Rightarrow> Inl e
          | Inr (v, r1) \<Rightarrow> choice [PNone, v] r1)"
    by blast
  ultimately show ?thesis using b args by (simp add: list_int_def lo hi)
qed

section \<open>Optional fields: both outcomes are reachable\<close>

lemma reads_prefixI:
  assumes "\<And>r v r'. g r = Inr (v, r') \<Longrightarrow>
             \<exists>k. r' = sdrop k r \<and> (\<forall>s. stake k s = stake k r \<longrightarrow> g s = Inr (v, sdrop k s))"
  shows "reads_prefix g"
  using assms unfolding reads_prefix_def by blast

lemma reads_prefixD:
  assumes "reads_prefix g" and "g r = Inr (v, r')"
  shows "\<exists>k. r' = sdrop k r \<and> (\<forall>s. stake k s = stake k r \<longrightarrow> g s = Inr (v, sdrop k s))"
  using assms unfolding reads_prefix_def by blast

lemma reads_prefix_raise: "reads_prefix (\<lambda>r::rng. Inl e)"
  by (rule reads_prefixI) simp

lemma reads_prefix_return: "reads_prefix (\<lambda>r::rng. Inr (x, r))"
proof (rule reads_prefixI)
  fix r r' :: rng and v
  assume "Inr (x, r) = Inr (v, r')"
  then have "r' = sdrop 0 r \<and> (\<forall>s. stake 0 s = stake 0 r \<longrightarrow> Inr (x, s) = Inr (v, sdrop 0 s))"
    by simp
  then show "\<exists>k. r' = sdrop k r \<and> (\<forall>s. stake k s = stake k r \<longrightarrow> Inr (x, s) = Inr (v, sdrop k s))"
    by blast
qed

lemma reads_prefix_draw:
  "reads_prefix (\<lambda>r. case h (shd r) of Inl e \<Rightarrow> Inl e | Inr x \<Rightarrow> Inr (x, stl r))"
proof (rule reads_prefixI)
  fix r v r'
  assume a: "(case h (shd r) of Inl e \<Rightarrow> Inl e | Inr x \<Rightarrow> Inr (x, stl r)) = Inr (v, r')"
  then have h: "h (shd r) = Inr v" and r': "r' = stl r"
    by (auto split: sum.splits)
  have "r' = sdrop 1 r" using r' by simp
  moreover have "(case h (shd s) of Inl e \<Rightarrow> Inl e | Inr x \<Rightarrow> Inr (x, stl s)) = Inr (v, sdrop 1 s)"
    if "stake 1 s = stake 1 r" for s
  proof -
    from that have "shd s = shd r" by simp
    with h show ?thesis by simp
  qed
  ultimately show "\<exists>k. r' = sdrop k r \<and> (\<forall>s. stake k s = stake k r \<longrightarrow>
      (case h (shd s) of Inl e \<Rightarrow> Inl e | Inr x \<Rightarrow> Inr (x, stl s)) = Inr (v, sdrop k s))"
    by blast
qed

lemma reads_prefix_one_draw:
  assumes "\<And>r. g r = (case h (shd r) of Inl e \<Rightarrow> Inl e | Inr x \<Rightarrow> Inr (x, stl r))"
  shows "reads_prefix g"
proof -
  have "g = (\<lambda>r. case h (shd r) of Inl e \<Rightarrow> Inl e | Inr x \<Rightarrow> Inr (x, stl r))"
    by (rule ext) (rule assms)
  then show ?thesis by (simp only: reads_prefix_draw)
qed

lemma stake_add_eq:
  assumes "stake (k1 + k2) s = stake (k1 + k2) r"
  shows "stake k1 s = stake k1 r" and "stake k2 (sdrop k1 s) = stake k2 (sdrop k1 r)"
proof -
  have "take k1 (stake (k1 + k2) s) = take k1 (stake (k1 + k2) r)" using assms by simp
  then show "stake k1 s = stake k1 r" by (simp add: take_stake)
  have "drop k1 (stake (k1 + k2) s) = drop k1 (stake (k1 + k2) r)" using assms by simp
  then show "stake k2 (sdrop k1 s) = stake k2 (sdrop k1 r)" by (simp add: drop_stake)
qed

lemma reads_prefix_bind:
  assumes g: "reads_prefix g" and f: "\<And>x. reads_prefix (f x)"
  shows "reads_prefix (\<lambda>r. case g r of Inl e \<Rightarrow> Inl e | Inr (x, r1) \<Rightarrow> f x r1)"
proof (rule reads_prefixI)
  fix r v r'
  assume a: "(case g r of Inl e \<Rightarrow> Inl e | Inr (x, r1) \<Rightarrow> f x r1) = Inr (v, r')"
  then obtain x r1 where gr: "g r = Inr (x, r1)" and fr: "f x r1 = Inr (v, r')"
    by (auto split: sum.splits)
  obtain k1 where r1: "r1 = sdrop k1 r"
    and g1: "\<And>s. stake k1 s = stake k1 r \<Longrightarrow> g s = Inr (x, sdrop k1 s)"
    using reads_prefixD [OF g gr] by blast
  obtain k2 where r': "r' = sdrop k2 r1"
    and f2: "\<And>s. stake k2 s = stake k2 r1 \<Longrightarrow> f x s = Inr (v, sdrop k2 s)"
    using reads_prefixD [OF f fr] by blast
  have "r' = sdrop (k1 + k2) r" using r1 r' by simp
  moreover have "(case g s of Inl e \<Rightarrow> Inl e | Inr (x, r1) \<Rightarrow> f x r1) = Inr (v, sdrop (k1 + k2) s)"
    if eq: "stake (k1 + k2) s = stake (k1 + k2) r" for s
  proof -
    from stake_add_eq [OF eq] have e1: "stake k1 s = stake k1 r"
      and e2: "stake k2 (sdrop k1 s) = stake k2 r1" by (simp_all add: r1)
    from g1 [OF e1] f2 [OF e2] show ?thesis by simp
  qed
  ultimately show "\<exists>k. r' = sdrop k r \<and> (\<forall>s. stake k s = stake k r \<longrightarrow>
      (case g s of Inl e \<Rightarrow> Inl e | Inr (x, r1) \<Rightarrow> f x r1) = Inr (v, sdrop k s))"
    by blast
qed

lemma reads_prefix_map:
  assumes "reads_prefix g"
  shows "reads_prefix (\<lambda>r. case g r of Inl e \<Rightarrow> Inl e | Inr (x, r1) \<Rightarrow> Inr (h x, r1))"
  using assms by (rule reads_prefix_bind) (rule reads_prefix_return)

lemma reads_prefix_gen_each:
  assumes "\<And>x. x \<in> set xs \<Longrightarrow> reads_prefix (f x)"
  shows "reads_prefix (gen_each f xs)"
  using assms
proof (induction xs)
  case Nil
  have "gen_each f [] = (\<lambda>r. Inr ([], r))" by (rule ext) simp
  then show ?case by (simp add: reads_prefix_return)
next
  case (Cons x xs)
  have tail: "reads_prefix (gen_each f xs)" by (rule Cons.IH) (simp add: Cons.prems)
  have head: "reads_prefix (f x)" by (rule Cons.prems) simp
  have eq: "gen_each f (x # xs) =
        (\<lambda>r. case f x r of Inl e \<Rightarrow> Inl e
              | Inr (y, r1) \<Rightarrow> (case gen_each f xs r1 of Inl e \<Rightarrow> Inl e
                                 | Inr (ys, r2) \<Rightarrow> Inr (y # ys, r2)))"
    by (rule ext) simp
  show ?case
    unfolding eq by (rule reads_prefix_bind [OF head]) (rule reads_prefix_map [OF tail])
qed


lemma reads_prefix_if:
  assumes "c \<Longrightarrow> reads_prefix f" and "\<not> c \<Longrightarrow> reads_prefix g"
  shows "reads_prefix (\<lambda>r. if c then f r else g r)"
  using assms by (cases c) (simp_all add: reads_prefix_def)

lemma reads_prefix_case_sum:
  assumes "\<And>a. c = Inr a \<Longrightarrow> reads_prefix (g a)"
  shows "reads_prefix (\<lambda>r::rng. case c of Inl e \<Rightarrow> Inl e | Inr a \<Rightarrow> g a r)"
proof (cases c)
  case (Inl e)
  then show ?thesis by (simp add: reads_prefix_raise)
next
  case (Inr a)
  with assms [OF Inr] show ?thesis by (simp add: reads_prefix_def)
qed

lemma reads_prefix_choice: "reads_prefix (choice seq)"
  by (rule reads_prefix_one_draw
        [where h = "\<lambda>n. if seq = [] then Inl IndexError else Inr (seq ! (n mod length seq))"])
     (simp add: choice_def)

lemma reads_prefix_fake_word: "reads_prefix (fake_word fk)"
  by (rule reads_prefix_one_draw [where h = "\<lambda>n. Inr (word_of fk n)"])
     (simp add: fake_word_def)

lemma reads_prefix_fake_sentence: "reads_prefix (fake_sentence fk nb_words)"
  by (rule reads_prefix_one_draw [where h = "\<lambda>n. Inr (PStr (sentence_of fk nb_words n))"])
     (simp add: fake_sentence_def)

lemma reads_prefix_fake_boolean: "reads_prefix fake_boolean"
  by (rule reads_prefix_one_draw [where h = "\<lambda>n. Inr (PBool (1 + n mod 100 \<le> 50))"])
     (simp add: fake_boolean_def)

lemma reads_prefix_fake_text: "reads_prefix (fake_text fk max_nb_chars)"
  by (rule reads_prefix_one_draw [where h = "text_of fk max_nb_chars"])
     (simp add: fake_text_def)

lemma reads_prefix_fake_pyfloat: "reads_prefix (fake_pyfloat fk min_value max_value)"
  by (rule reads_prefix_one_draw [where h = "pyfloat_of fk min_value max_value"])
     (simp add: fake_pyfloat_def)

lemma reads_prefix_fake_random_int: "reads_prefix (fake_random_int min_val max_val)"
  by (rule reads_prefix_one_draw
        [where h = "\<lambda>n. case (index_of min_val, index_of max_val) of
                          (Some lo, Some hi) \<Rightarrow>
                            if hi < lo then Inl ValueError
                            else Inr (PInt (lo + int (n mod nat (hi - lo + 1))))
                        | _ \<Rightarrow> Inl TypeError"])
     (simp add: fake_random_int_def split: option.splits)

lemma random_letters_eq:
  "random_letters n r =
     (map (\<lambda>d. ascii_letters ! (d mod length ascii_letters)) (stake n r), sdrop n r)"
  by (induction n arbitrary: r) simp_all

lemma reads_prefix_fake_pystr: "reads_prefix (fake_pystr min_chars max_chars)"
proof (rule reads_prefixI)
  fix r v r'
  assume a: "fake_pystr min_chars max_chars r = Inr (v, r')"
  then obtain lo hi where lo: "index_of min_chars = Some lo" and hi: "index_of max_chars = Some hi"
    and le: "\<not> hi < lo"
    by (auto simp: fake_pystr_def split: option.splits if_splits)
  define n where "n = nat (lo + int (shd r mod nat (hi - lo + 1)))"
  let ?letters = "map (\<lambda>d. ascii_letters ! (d mod length ascii_letters))"
  have run: "fake_pystr min_chars max_chars s
             = Inr (PStr (?letters (stake n (stl s))), sdrop (Suc n) s)" if "shd s = shd r" for s
    using that lo hi le by (simp add: fake_pystr_def random_letters_eq n_def Let_def)
  from a run [of r] have v: "v = PStr (?letters (stake n (stl r)))" and r': "r' = sdrop (Suc n) r"
    by simp_all
  have "fake_pystr min_chars max_chars s = Inr (v, sdrop (Suc n) s)"
    if eq: "stake (Suc n) s = stake (Suc n) r" for s
  proof -
    from eq have "shd s = shd r" and "stake n (stl s) = stake n (stl r)" by simp_all
    with run [of s] v show ?thesis by simp
  qed
  with r' show "\<exists>k. r' = sdrop k r \<and>
      (\<forall>s. stake k s = stake k r \<longrightarrow> fake_pystr min_chars max_chars s = Inr (v, sdrop k s))"
    by blast
qed

lemma reads_prefix_eq: "g = g' \<Longrightarrow> reads_prefix g' \<Longrightarrow> reads_prefix g"
  by simp

lemma reads_prefix_int_rule: "reads_prefix (int_rule m)"
proof (cases "py_add (dict_get m ''gt'' (PInt 1)) (PInt 1)")
  case (Inl e)
  then have "int_rule m = (\<lambda>r. Inl e)" by (intro ext) (simp add: int_rule_def)
  then show ?thesis by (rule reads_prefix_eq) (rule reads_prefix_raise)
next
  case above: (Inr above_gt)
  show ?thesis
  proof (cases "py_sub (dict_get m ''lt'' (PInt 1000)) (PInt 1)")
    case (Inl e)
    with above have "int_rule m = (\<lambda>r. Inl e)" by (intro ext) (simp add: int_rule_def)
    then show ?thesis by (rule reads_prefix_eq) (rule reads_prefix_raise)
  next
    case (Inr below_lt)
    with above
    have "int_rule m = fake_random_int (dict_get m ''ge'' above_gt) (dict_get m ''le'' below_lt)"
      by (intro ext) (simp add: int_rule_def)
    then show ?thesis by (rule reads_prefix_eq) (rule reads_prefix_fake_random_int)
  qed
qed

lemma reads_prefix_float_rule: "reads_prefix (float_rule fk m)"
proof (cases "py_add (dict_get m ''gt'' (PFloat 1)) (PFloat (1 / 10))")
  case (Inl e)
  then have "float_rule fk m = (\<lambda>r. Inl e)" by (intro ext) (simp add: float_rule_def)
  then show ?thesis by (rule reads_prefix_eq) (rule reads_prefix_raise)
next
  case above: (Inr above_gt)
  show ?thesis
  proof (cases "py_sub (dict_get m ''lt'' (PFloat 1000)) (PFloat (1 / 10))")
    case (Inl e)
    with above have "float_rule fk m = (\<lambda>r. Inl e)" by (intro ext) (simp add: float_rule_def)
    then show ?thesis by (rule reads_prefix_eq) (rule reads_prefix_raise)
  next
    case (Inr below_lt)
    with above
    have "float_rule fk m =
            (\<lambda>r. case fake_pyfloat fk (Some (dict_get m ''ge'' above_gt))
                         (Some (dict_get m ''le'' below_lt)) r of
                    Inl e \<Rightarrow> Inl e
                  | Inr (x, r1) \<Rightarrow> Inr (PFloat (round2 x), r1))"
      by (intro ext) (simp add: float_rule_def)
    then show ?thesis
      by (rule reads_prefix_eq) (rule reads_prefix_map, rule reads_prefix_fake_pyfloat)
  qed
qed

lemma reads_prefix_str_rule: "reads_prefix (str_rule fk m)"
proof (cases "py_eq (dict_get m ''min_length'' (PInt 5)) (dict_get m ''max_length'' (PInt 15))")
  case True
  then have "str_rule fk m
             = fake_pystr (dict_get m ''min_length'' (PInt 5)) (dict_get m ''min_length'' (PInt 5))"
    by (intro ext) (simp add: str_rule_def Let_def)
  then show ?thesis by (rule reads_prefix_eq) (rule reads_prefix_fake_pystr)
next
  case False
  define lo where "lo = dict_get m ''min_length'' (PInt 5)"
  define hi where "hi = dict_get m ''max_length'' (PInt 15)"
  define cut where "cut = (\<lambda>s (r1::rng). case py_max lo hi of
                        Inl e \<Rightarrow> Inl e
                      | Inr k \<Rightarrow> (case py_slice_to s k of
                                    Inl e \<Rightarrow> Inl e
                                  | Inr s' \<Rightarrow> Inr (PStr s', r1)))"
  from False have eq: "str_rule fk m =
      (\<lambda>r. case fake_text fk hi r of Inl e \<Rightarrow> Inl e | Inr (s, r1) \<Rightarrow> cut s r1)"
    unfolding cut_def lo_def hi_def by (intro ext) (simp add: str_rule_def Let_def)
  have cut: "reads_prefix (cut s)" for s
  proof (cases "py_max lo hi")
    case (Inl e)
    then have "cut s = (\<lambda>r. Inl e)" by (intro ext) (simp add: cut_def)
    then show ?thesis by (rule reads_prefix_eq) (rule reads_prefix_raise)
  next
    case k: (Inr k)
    show ?thesis
    proof (cases "py_slice_to s k")
      case (Inl e)
      with k have "cut s = (\<lambda>r. Inl e)" by (intro ext) (simp add: cut_def)
      then show ?thesis by (rule reads_prefix_eq) (rule reads_prefix_raise)
    next
      case (Inr s')
      with k have "cut s = (\<lambda>r. Inr (PStr s', r))" by (intro ext) (simp add: cut_def)
      then show ?thesis by (rule reads_prefix_eq) (rule reads_prefix_return)
    qed
  qed
  show ?thesis
    by (rule reads_prefix_eq [OF eq]) (rule reads_prefix_bind [OF reads_prefix_fake_text cut])
qed

lemma reads_prefix_bare_float_rule: "reads_prefix (bare_float_rule fk)"
proof -
  have "bare_float_rule fk =
          (\<lambda>r. case fake_pyfloat fk None None r of
                  Inl e \<Rightarrow> Inl e
                | Inr (x, r1) \<Rightarrow> Inr (PFloat (round2 x), r1))"
    by (intro ext) (simp add: bare_float_rule_def)
  then show ?thesis
    by (rule reads_prefix_eq) (rule reads_prefix_map, rule reads_prefix_fake_pyfloat)
qed

lemma reads_prefix_bare_list_rule: "reads_prefix (bare_list_rule fk)"
proof -
  have "bare_list_rule fk =
          (\<lambda>r. case gen_each (\<lambda>_. fake_word fk) (replicate 3 ()) r of
                  Inl e \<Rightarrow> Inl e
                | Inr (ws, r1) \<Rightarrow> Inr (PList (map PStr ws), r1))"
    by (intro ext) (simp add: bare_list_rule_def)
  then show ?thesis
    by (rule reads_prefix_eq)
       (rule reads_prefix_map, rule reads_prefix_gen_each, rule reads_prefix_fake_word)
qed

lemma reads_prefix_any_rule: "reads_prefix (any_rule fk)"
proof -
  have s4: "reads_prefix (\<lambda>r3. case fake_sentence fk 4 r3 of
                                  Inl e \<Rightarrow> Inl e
                                | Inr (s, r4) \<Rightarrow> choice [PStr w, i, PFloat x, s] r4)" for w i x
    by (rule reads_prefix_bind [OF reads_prefix_fake_sentence]) (rule reads_prefix_choice)
  have s3: "reads_prefix (\<lambda>r2. case fake_pyfloat fk None None r2 of
                  Inl e \<Rightarrow> Inl e
                | Inr (x, r3) \<Rightarrow>
                    (case fake_sentence fk 4 r3 of
                       Inl e \<Rightarrow> Inl e
                     | Inr (s, r4) \<Rightarrow> choice [PStr w, i, PFloat x, s] r4))" for w i
    by (rule reads_prefix_bind [OF reads_prefix_fake_pyfloat]) (rule s4)
  have s2: "reads_prefix (\<lambda>r1. case fake_random_int (PInt 1) (PInt 1000) r1 of
             Inl e \<Rightarrow> Inl e
           | Inr (i, r2) \<Rightarrow>
               (case fake_pyfloat fk None None r2 of
                  Inl e \<Rightarrow> Inl e
                | Inr (x, r3) \<Rightarrow>
                    (case fake_sentence fk 4 r3 of
                       Inl e \<Rightarrow> Inl e
                     | Inr (s, r4) \<Rightarrow> choice [PStr w, i, PFloat x, s] r4)))" for w
    by (rule reads_prefix_bind [OF reads_prefix_fake_random_int]) (rule s3)
  have "any_rule fk =
     (\<lambda>r. case fake_word fk r of
        Inl e \<Rightarrow> Inl e
      | Inr (w, r1) \<Rightarrow>
          (case fake_random_int (PInt 1) (PInt 1000) r1 of
             Inl e \<Rightarrow> Inl e
           | Inr (i, r2) \<Rightarrow>
               (case fake_pyfloat fk None None r2 of
                  Inl e \<Rightarrow> Inl e
                | Inr (x, r3) \<Rightarrow>
                    (case fake_sentence fk 4 r3 of
                       Inl e \<Rightarrow> Inl e
                     | Inr (s, r4) \<Rightarrow> choice [PStr w, i, PFloat x, s] r4))))"
    by (intro ext) (simp only: any_rule_def)
  then show ?thesis
    by (rule reads_prefix_eq) (rule reads_prefix_bind [OF reads_prefix_fake_word], rule s2)
qed


lemma generate_value_unmatched:
  assumes "\<not> matches_some_rule t"
  shows "generate_value fk t m r = Inr (PNone, r)"
proof -
  have "\<not> matches_some_rule t \<longrightarrow> generate_value fk t m r = Inr (PNone, r)"
    by (simp add: matches_some_rule_def generate_value.simps [of fk t m r] Let_def)
  with assms show ?thesis by blast
qed

lemma generate_value_float_typed:
  "t = FloatClass \<or> t = SubclassOf OfFloat \<Longrightarrow> generate_value fk t m r = float_rule fk m r"
  by (auto simp: generate_value.simps)

lemma generate_value_bare_list: "generate_value fk ListClass m r = bare_list_rule fk r"
  by (simp add: generate_value.simps)

lemma generate_value_any: "generate_value fk AnyType m r = any_rule fk r"
  by (simp add: generate_value.simps)

lemma reads_prefix_generate_value: "reads_prefix (generate_value fk t m)"
proof (induction t arbitrary: m rule: measure_induct_rule [where f = size])
  case (less t)
  have unmatched: "reads_prefix (generate_value fk t m)" if "\<not> matches_some_rule t"
  proof -
    from that have "generate_value fk t m = (\<lambda>r. Inr (PNone, r))"
      by (intro ext) (rule generate_value_unmatched)
    then show ?thesis by (rule reads_prefix_eq) (rule reads_prefix_return)
  qed
  have elements: "reads_prefix (gen_each (\<lambda>t'. generate_value fk t' m) ts)"
    if "\<And>t'. t' \<in> set ts \<Longrightarrow> size t' < size t" for ts
    by (rule reads_prefix_gen_each) (rule less.IH, rule that)
  show ?case
  proof (cases t)
    case NoneType
    then show ?thesis by (intro unmatched) (simp add: unmatched_shapes)
  next
    case OtherClass
    then show ?thesis by (intro unmatched) (simp add: unmatched_shapes)
  next
    case Opaque
    then show ?thesis by (intro unmatched) (simp add: unmatched_shapes)
  next
    case BoolClass
    then have "generate_value fk t m = fake_boolean"
      by (intro ext) (simp add: generate_value_boolean_typed boolean_typed_cases)
    then show ?thesis by (rule reads_prefix_eq) (rule reads_prefix_fake_boolean)
  next
    case IntClass
    then have "generate_value fk t m = int_rule m"
      by (intro ext) (simp add: generate_value_integer_typed integer_typed_cases)
    then show ?thesis by (rule reads_prefix_eq) (rule reads_prefix_int_rule)
  next
    case FloatClass
    then have "generate_value fk t m = float_rule fk m"
      by (intro ext) (simp add: generate_value_float_typed)
    then show ?thesis by (rule reads_prefix_eq) (rule reads_prefix_float_rule)
  next
    case StrClass
    then have "generate_value fk t m = str_rule fk m"
      by (intro ext) (simp add: generate_value_text_typed text_typed_cases)
    then show ?thesis by (rule reads_prefix_eq) (rule reads_prefix_str_rule)
  next
    case ListClass
    then have "generate_value fk t m = bare_list_rule fk"
      by (intro ext) (simp add: generate_value_bare_list)
    then show ?thesis by (rule reads_prefix_eq) (rule reads_prefix_bare_list_rule)
  next
    case AnyType
    then have "generate_value fk t m = any_rule fk"
      by (intro ext) (simp add: generate_value_any)
    then show ?thesis by (rule reads_prefix_eq) (rule reads_prefix_any_rule)
  next
    case (SubclassOf b)
    show ?thesis
    proof (cases b)
      case OfInt
      with SubclassOf have "generate_value fk t m = int_rule m"
        by (intro ext) (simp add: generate_value_integer_typed integer_typed_cases)
      then show ?thesis by (rule reads_prefix_eq) (rule reads_prefix_int_rule)
    next
      case OfFloat
      with SubclassOf have "generate_value fk t m = float_rule fk m"
        by (intro ext) (simp add: generate_value_float_typed)
      then show ?thesis by (rule reads_prefix_eq) (rule reads_prefix_float_rule)
    next
      case OfStr
      with SubclassOf have "generate_value fk t m = str_rule fk m"
        by (intro ext) (simp add: generate_value_text_typed text_typed_cases)
      then show ?thesis by (rule reads_prefix_eq) (rule reads_prefix_str_rule)
    qed
  next
    case (EnumClass vs)
    then have "generate_value fk t m = choice vs"
      by (intro ext) (simp add: generate_value_enum)
    then show ?thesis by (rule reads_prefix_eq) (rule reads_prefix_choice)
  next
    case (RootModelClass a)
    then have "size (root_annotation t) < size t"
      by (intro size_root_annotation) simp
    then have "reads_prefix (generate_value fk (root_annotation t) m)"
      by (rule less.IH)
    moreover from RootModelClass
    have "generate_value fk t m = generate_value fk (root_annotation t) m"
      by (intro ext) (simp only: generate_value_root_model)
    ultimately show ?thesis by simp
  next
    case (ModelClass fs)
    let ?field = "\<lambda>(field_name, annotation, field_metadata) s.
                   case generate_value fk annotation (extract_metadata field_metadata) s of
                     Inl e \<Rightarrow> Inl e
                   | Inr (v, s1) \<Rightarrow> Inr ((field_name, v), s1)"
    have "reads_prefix (?field f)" if "f \<in> set fs" for f
    proof -
      obtain n a md where f: "f = (n, a, md)" by (cases f)
      have "model_fields t = Some fs" using ModelClass by simp
      moreover have "(n, a, md) \<in> set fs" using that f by simp
      ultimately have "size a < size t" by (rule size_model_fields)
      then have "reads_prefix (generate_value fk a (extract_metadata md))" by (rule less.IH)
      then have "reads_prefix (\<lambda>s. case generate_value fk a (extract_metadata md) s of
                                     Inl e \<Rightarrow> Inl e
                                   | Inr (v, s1) \<Rightarrow> Inr ((n, v), s1))"
        by (rule reads_prefix_map)
      then show ?thesis by (simp add: f)
    qed
    then have "reads_prefix (gen_each ?field fs)" by (rule reads_prefix_gen_each)
    then have "reads_prefix (\<lambda>r. case gen_each ?field fs r of
                                   Inl e \<Rightarrow> Inl e
                                 | Inr (items, r1) \<Rightarrow> Inr (PDict (dict_of_items items), r1))"
      by (rule reads_prefix_map)
    moreover from ModelClass
    have "generate_value fk t m = (\<lambda>r. case gen_each ?field fs r of
                                   Inl e \<Rightarrow> Inl e
                                 | Inr (items, r1) \<Rightarrow> Inr (PDict (dict_of_items items), r1))"
      by (intro ext) (simp only: generate_value_model)
    ultimately show ?thesis by simp
  next
    case (Generic origin args)
    have smaller: "size t' < size t" if "t' \<in> set args" for t'
      using that Generic size_get_args [of t' t] by simp
    have pos: "size AnyType < size t" using Generic by simp
    show ?thesis
    proof (cases origin)
      case OUnion
      show ?thesis
      proof (cases "NoneType \<in> set args")
        case False
        with Generic OUnion show ?thesis by (intro unmatched) (simp add: unmatched_shapes)
      next
        case True
        show ?thesis
        proof (cases "find (\<lambda>t. t \<noteq> NoneType) args")
          case None
          with True Generic OUnion have "generate_value fk t m = (\<lambda>r. Inl StopIteration)"
            by (intro ext) (simp add: generate_value_optional)
          then show ?thesis by (rule reads_prefix_eq) (rule reads_prefix_raise)
        next
          case (Some wrapped)
          then have "wrapped \<in> set args" by (rule find_mem)
          then have "reads_prefix (generate_value fk wrapped m)"
            by (intro less.IH smaller)
          then have "reads_prefix (\<lambda>r. case generate_value fk wrapped m r of
                                         Inl e \<Rightarrow> Inl e
                                       | Inr (v, r1) \<Rightarrow> choice [PNone, v] r1)"
            by (rule reads_prefix_bind) (rule reads_prefix_choice)
          moreover from True Some Generic OUnion
          have "generate_value fk t m = (\<lambda>r. case generate_value fk wrapped m r of
                                         Inl e \<Rightarrow> Inl e
                                       | Inr (v, r1) \<Rightarrow> choice [PNone, v] r1)"
            by (intro ext) (simp add: generate_value_optional)
          ultimately show ?thesis by simp
        qed
      qed
    next
      case OList
      define sub where "sub = (if args \<noteq> [] then hd args else AnyType)"
      have "size sub < size t"
        using smaller [of "hd args"] pos by (simp add: sub_def)
      then have "reads_prefix (gen_each (\<lambda>t'. generate_value fk t' m) (replicate 3 sub))"
        by (intro elements) simp
      then have "reads_prefix (\<lambda>r. case gen_each (\<lambda>t'. generate_value fk t' m) (replicate 3 sub) r of
                                     Inl e \<Rightarrow> Inl e
                                   | Inr (vs, r1) \<Rightarrow> Inr (PList vs, r1))"
        by (rule reads_prefix_map)
      moreover from Generic OList
      have "generate_value fk t m =
              (\<lambda>r. case gen_each (\<lambda>t'. generate_value fk t' m) (replicate 3 sub) r of
                      Inl e \<Rightarrow> Inl e
                    | Inr (vs, r1) \<Rightarrow> Inr (PList vs, r1))"
        by (intro ext) (simp only: generate_value_list sub_def)
      ultimately show ?thesis by simp
    next
      case OTuple
      have "reads_prefix (gen_each (\<lambda>t'. generate_value fk t' m) args)"
        by (intro elements smaller)
      then have "reads_prefix (\<lambda>r. case gen_each (\<lambda>t'. generate_value fk t' m) args r of
                                     Inl e \<Rightarrow> Inl e
                                   | Inr (vs, r1) \<Rightarrow> Inr (PTuple vs, r1))"
        by (rule reads_prefix_map)
      moreover from Generic OTuple
      have "generate_value fk t m =
              (\<lambda>r. case gen_each (\<lambda>t'. generate_value fk t' m) args r of
                      Inl e \<Rightarrow> Inl e
                    | Inr (vs, r1) \<Rightarrow> Inr (PTuple vs, r1))"
        by (intro ext) (simp only: generate_value_tuple)
      ultimately show ?thesis by simp
    next
      case ODict
      let ?entry = "\<lambda>t' s. case fake_word fk s of
                              Inl e \<Rightarrow> Inl e
                            | Inr (k, s1) \<Rightarrow>
                                (case generate_value fk t' m s1 of
                                   Inl e \<Rightarrow> Inl e
                                 | Inr (v, s2) \<Rightarrow> Inr ((k, v), s2))"
      show ?thesis
      proof (cases "if args \<noteq> [] then unpack_pair args else Inr (StrClass, AnyType)")
        case (Inl e)
        with Generic ODict have "generate_value fk t m = (\<lambda>r. Inl e)"
          by (intro ext) (simp add: generate_value_dict)
        then show ?thesis by (rule reads_prefix_eq) (rule reads_prefix_raise)
      next
        case (Inr kv)
        obtain key_type value_type where kv: "kv = (key_type, value_type)" by (cases kv)
        have "size value_type < size t"
          using Inr kv pos smaller [of value_type]
          by (auto split: if_splits dest: unpack_pair_mem)
        then have wrapped_rp: "reads_prefix (generate_value fk value_type m)" by (rule less.IH)
        have entry: "reads_prefix (?entry value_type)"
          by (rule reads_prefix_bind [OF reads_prefix_fake_word])
             (rule reads_prefix_map [OF wrapped_rp])
        have "reads_prefix (gen_each ?entry (replicate 2 value_type))"
        proof (rule reads_prefix_gen_each)
          fix x assume "x \<in> set (replicate 2 value_type)"
          then have "x = value_type" by simp
          with entry show "reads_prefix (?entry x)" by (simp only:)
        qed
        then have "reads_prefix (\<lambda>r. case gen_each ?entry (replicate 2 value_type) r of
                                       Inl e \<Rightarrow> Inl e
                                     | Inr (items, r1) \<Rightarrow> Inr (PDict (dict_of_items items), r1))"
          by (rule reads_prefix_map)
        moreover from Generic ODict Inr kv
        have "generate_value fk t m =
                (\<lambda>r. case gen_each ?entry (replicate 2 value_type) r of
                        Inl e \<Rightarrow> Inl e
                      | Inr (items, r1) \<Rightarrow> Inr (PDict (dict_of_items items), r1))"
          by (intro ext) (simp add: generate_value_dict)
        ultimately show ?thesis by simp
      qed
    qed
  qed
qed


text \<open>
  Claim C7 does not hold for every \<^verbatim>\<open>Optional\<close> field. Line 43 synthesizes the wrapped value
  before \<^verbatim>\<open>choice\<close> draws; when that synthesis raises for every outcome, as for an integer
  under \<^verbatim>\<open>ge=10, le=5\<close>, the exception leaves \<^verbatim>\<open>generate_value\<close> and no outcome returns
  \<^verbatim>\<open>None\<close>.
\<close>

theorem optional_absent_unreachable_counterexample:
  "\<not> (\<exists>r r'. generate_value demo_faker optional_int empty_range_constraints r = Inr (PNone, r'))"
proof -
  have "generate_value demo_faker optional_int empty_range_constraints r = Inl ValueError" for r
    by (simp add: optional_int_def empty_range_constraints_def generate_value.simps
          int_rule_def dict_get_def fake_random_int_def)
  then show ?thesis by simp
qed

text \<open>
  Claim C7, amended. For an \<^verbatim>\<open>Optional\<close> field whose wrapped annotation is synthesized to a
  value \<open>v\<close> under some outcome of the randomness source, there is an outcome for which
  the synthesizer returns \<^verbatim>\<open>None\<close> and an outcome for which it returns \<open>v\<close>.
\<close>

theorem optional_both_outcomes:
  assumes "NoneType \<in> set args" and "find (\<lambda>t. t \<noteq> NoneType) args = Some t"
    and "generate_value fk t m r0 = Inr (v, r1)"
  shows "(\<exists>r r'. generate_value fk (Generic OUnion args) m r = Inr (PNone, r'))
       \<and> (\<exists>r r'. generate_value fk (Generic OUnion args) m r = Inr (v, r'))"
proof -
  obtain k where wrapped: "\<And>s. stake k s = stake k r0 \<Longrightarrow> generate_value fk t m s = Inr (v, sdrop k s)"
    using reads_prefixD [OF reads_prefix_generate_value assms(3)] by blast
  have run: "generate_value fk (Generic OUnion args) m (stake k r0 @- s0) = choice [PNone, v] s0"
    for s0
  proof -
    have "stake k (stake k r0 @- s0) = stake k r0"
      by (simp add: stake_shift)
    then have "generate_value fk t m (stake k r0 @- s0) = Inr (v, sdrop k (stake k r0 @- s0))"
      by (rule wrapped)
    also have "sdrop k (stake k r0 @- s0) = s0"
      by (simp add: sdrop_shift)
    finally have g: "generate_value fk t m (stake k r0 @- s0) = Inr (v, s0)" .
    show ?thesis
      by (simp only: generate_value_optional [OF assms(1)] assms(2) g option.case sum.case
            prod.case)
  qed
  have "generate_value fk (Generic OUnion args) m (stake k r0 @- sconst 0) = Inr (PNone, sconst 0)"
    unfolding run by (simp add: choice_def)
  moreover
  have "generate_value fk (Generic OUnion args) m (stake k r0 @- sconst 1) = Inr (v, sconst 1)"
    unfolding run by (simp add: choice_def)
  ultimately show ?thesis by blast
qed

theorem optional_both_outcomes_witness:
  "NoneType \<in> set [IntClass, NoneType]
   \<and> find (\<lambda>t. t \<noteq> NoneType) [IntClass, NoneType] = Some IntClass
   \<and> generate_value demo_faker IntClass id_constraints (sconst 0) = Inr (PInt 100, sconst 0)
   \<and> (\<exists>r r'. generate_value demo_faker optional_int id_constraints r = Inr (PNone, r'))
   \<and> (\<exists>r r'. generate_value demo_faker optional_int id_constraints r = Inr (PInt 100, r'))"
proof -
  have run: "generate_value demo_faker IntClass id_constraints (sconst 0) = Inr (PInt 100, sconst 0)"
    by (simp add: id_constraints_def generate_value.simps int_rule_def dict_get_def
          fake_random_int_def)
  have args: "NoneType \<in> set [IntClass, NoneType]"
    "find (\<lambda>t. t \<noteq> NoneType) [IntClass, NoneType] = Some IntClass"
    by simp_all
  from optional_both_outcomes [OF args run] run args show ?thesis
    by (simp add: optional_int_def)
qed

section \<open>Writing a generated value as JSON and reading it back\<close>










lemma bare_float_rule_result: "bare_float_rule fk r = Inr (v, r') \<Longrightarrow> \<exists>x. v = PFloat x"
  by (auto simp: bare_float_rule_def split: sum.splits)











end
